theory Spec2Isabelle
  imports Main "HOL-Library.AList"
begin

section \<open>Values of the host language\<close>

text \<open>
  A parsed JSON value, as \<^verbatim>\<open>JSON.parse\<close> returns it. Of a number the client only ever
  inspects whether it is zero (truthiness), so numbers are integers here. An object is its
  list of own properties; a property is looked up by name.
\<close>

datatype json =
    JNull
  | JBool bool
  | JNum int
  | JStr string
  | JArr "json list"
  | JObj "(string \<times> json) list"

datatype js_error = SyntaxError | TypeError | Error string

text \<open>\<^verbatim>\<open>error.message\<close>: the two built-in errors carry a non-empty message.\<close>

fun message :: "js_error \<Rightarrow> string" where
  "message SyntaxError = ''Unexpected token in JSON''"
| "message TypeError = ''Cannot use in operator''"
| "message (Error m) = m"

text \<open>Truthiness of a value, and of the result of a property access (\<open>None\<close> is \<^verbatim>\<open>undefined\<close>).\<close>

fun truthy :: "json \<Rightarrow> bool" where
  "truthy JNull = False"
| "truthy (JBool b) = b"
| "truthy (JNum n) = (n \<noteq> 0)"
| "truthy (JStr s) = (s \<noteq> [])"
| "truthy (JArr xs) = True"
| "truthy (JObj kvs) = True"

fun truthy_opt :: "json option \<Rightarrow> bool" where
  "truthy_opt None = False"
| "truthy_opt (Some v) = truthy v"

text \<open>
  \<^verbatim>\<open>v.name\<close> for the property names the client reads (none of them is an array index or a
  built-in of strings, numbers or arrays): only an object has them.
\<close>

fun getProp :: "json \<Rightarrow> string \<Rightarrow> json option" where
  "getProp (JObj kvs) name = map_of kvs name"
| "getProp v name = None"

text \<open>\<^verbatim>\<open>name in v\<close>: a TypeError on a primitive value.\<close>

fun js_in :: "string \<Rightarrow> json \<Rightarrow> js_error + bool" where
  "js_in name (JObj kvs) = Inr (map_of kvs name \<noteq> None)"
| "js_in name (JArr xs) = Inr False"
| "js_in name v = Inl TypeError"

text \<open>A string that is truthy: present and not empty.\<close>

fun truthy_str :: "string option \<Rightarrow> bool" where
  "truthy_str None = False"
| "truthy_str (Some s) = (s \<noteq> [])"

text \<open>Decimal digits of a number, for \<^verbatim>\<open>`${key}=${value}`\<close>.\<close>

fun digits :: "nat \<Rightarrow> string" where
  "digits n = (if n < 10 then [char_of (48 + n)] else digits (n div 10) @ [char_of (48 + n mod 10)])"

declare digits.simps [simp del]

definition show_int :: "int \<Rightarrow> string" where
  "show_int i = (if i < 0 then CHR ''-'' # digits (nat (- i)) else digits (nat i))"

section \<open>util/requestUtils.ts\<close>

text \<open>
  \<^verbatim>\<open>serializeParams\<close>: the keys sorted, each rendered \<^verbatim>\<open>key=value\<close>, joined by \<^verbatim>\<open>&\<close>.
  The parameter object is a list of (key, rendered value) pairs, where \<open>None\<close> is an
  undefined value; with strict validation an undefined value throws.
\<close>

fun join :: "string \<Rightarrow> string list \<Rightarrow> string" where
  "join sep [] = []"
| "join sep [x] = x"
| "join sep (x # y # ys) = x @ sep @ join sep (y # ys)"

fun insort_key_str :: "(string \<times> 'a) \<Rightarrow> (string \<times> 'a) list \<Rightarrow> (string \<times> 'a) list" where
  "insort_key_str p [] = [p]"
| "insort_key_str p (q # qs) =
     (if lexordp_eq (map of_char (fst p) :: nat list) (map of_char (fst q)) then p # q # qs
      else q # insort_key_str p qs)"

definition sort_keys :: "(string \<times> 'a) list \<Rightarrow> (string \<times> 'a) list" where
  "sort_keys ps = foldr insort_key_str ps []"

fun render_params :: "bool \<Rightarrow> (string \<times> string option) list \<Rightarrow> js_error + string list" where
  "render_params strict [] = Inr []"
| "render_params strict ((k, v) # ps) =
     (case v of
        None \<Rightarrow>
          (if strict then Inl (Error ''Failed to sign API request due to undefined parameter'')
           else (case render_params strict ps of Inl e \<Rightarrow> Inl e
                 | Inr rs \<Rightarrow> Inr ((k @ ''=undefined'') # rs)))
      | Some x \<Rightarrow>
          (case render_params strict ps of Inl e \<Rightarrow> Inl e
           | Inr rs \<Rightarrow> Inr ((k @ ''='' @ x) # rs)))"

definition serializeParams :: "(string \<times> string option) list \<Rightarrow> bool \<Rightarrow> js_error + string" where
  "serializeParams params strict_validation =
     (case render_params strict_validation (sort_keys params) of
        Inl e \<Rightarrow> Inl e
      | Inr rs \<Rightarrow> Inr (join ''&'' rs))"

text \<open>\<^verbatim>\<open>isWsPong\<close> as exported by util/requestUtils.ts: a bare pong or ping marker counts.\<close>

definition isWsPong_requestUtils :: "json \<Rightarrow> bool" where
  "isWsPong_requestUtils response =
     (if truthy_opt (getProp response ''pong'') \<or> truthy_opt (getProp response ''ping'') then True
      else (case getProp response ''request'' of
              None \<Rightarrow> False
            | Some request \<Rightarrow>
                truthy request
                \<and> getProp request ''op'' = Some (JStr ''ping'')
                \<and> getProp response ''ret_msg'' = Some (JStr ''pong'')
                \<and> getProp response ''success'' = Some (JBool True)))"

section \<open>The websocket client: constants and data\<close>

datatype WsConnectionState =
    READY_STATE_INITIAL
  | READY_STATE_CONNECTING
  | READY_STATE_CONNECTED
  | READY_STATE_CLOSING
  | READY_STATE_RECONNECTING

text \<open>The numeric value of an enum member; \<^verbatim>\<open>!state\<close> holds exactly of the value 0.\<close>

fun state_value :: "WsConnectionState \<Rightarrow> nat" where
  "state_value READY_STATE_INITIAL = 0"
| "state_value READY_STATE_CONNECTING = 1"
| "state_value READY_STATE_CONNECTED = 2"
| "state_value READY_STATE_CLOSING = 3"
| "state_value READY_STATE_RECONNECTING = 4"

definition inverseEndpoints :: "bool \<Rightarrow> string" where
  "inverseEndpoints live =
     (if live then ''wss://stream.bybit.com/realtime''
      else ''wss://stream-testnet.bybit.com/realtime'')"

definition linearEndpoints :: "bool \<Rightarrow> string" where
  "linearEndpoints live =
     (if live then ''wss://stream.bybit.com/realtime_public''
      else ''wss://stream-testnet.bybit.com/realtime_public'')"

text \<open>\<^verbatim>\<open>isWsPong\<close> as the websocket client declares it for itself, and calls.\<close>

definition isWsPong :: "json \<Rightarrow> bool" where
  "isWsPong response =
     (case getProp response ''request'' of
        None \<Rightarrow> False
      | Some request \<Rightarrow>
          truthy request
          \<and> getProp request ''op'' = Some (JStr ''ping'')
          \<and> getProp response ''ret_msg'' = Some (JStr ''pong'')
          \<and> getProp response ''success'' = Some (JBool True))"

record WSClientConfigurableOptions =
  cfg_key :: "string option"
  cfg_secret :: "string option"
  cfg_livenet :: "bool option"
  cfg_linear :: "bool option"
  cfg_pongTimeout :: "int option"
  cfg_pingInterval :: "int option"
  cfg_reconnectTimeout :: "int option"
  cfg_wsUrl :: "string option"

record WebsocketClientOptions =
  key :: "string option"
  secret :: "string option"
  livenet :: bool
  linear :: bool
  pongTimeout :: int
  pingInterval :: int
  reconnectTimeout :: int
  wsUrl :: "string option"

definition defaultWsKey :: string where
  "defaultWsKey = ''inverse''"

fun getLinearWsKeyForTopic :: "string \<Rightarrow> string" where
  "getLinearWsKeyForTopic topic = (if topic = [] then ''public'' else ''private'')"

text \<open>
  Modelled from the spec: the transport (the WebSocket of the isomorphic-ws package), which
  is not part of this repository. A socket is known by its handle, the index at which it
  was created; it remembers the URL it was opened on and the connection key its four event
  handlers were bound to. A send succeeds on an open socket and fails otherwise (spec 4.3,
  send guard: "transport-level send failures (e.g., socket not open)").
\<close>

datatype WsReadyState = CONNECTING | OPEN | CLOSING | CLOSED

record WebSocket =
  url :: string
  handlerKey :: string
  readyState :: WsReadyState

text \<open>Timers of the host: a handle, one-shot or repeating, the delay, and what runs.\<close>

datatype timer_callback =
    ReconnectCallback
  | PingCallback
  | PongTimeoutCallback string

datatype timer_kind = Timeout | Interval

record timer =
  timerId :: nat
  kind :: timer_kind
  delay :: int
  callback :: timer_callback

text \<open>
  Modelled from the spec: the Connection Record of util/WsStore.ts, which is not among the
  sources (spec 3: state, socket, topics, heartbeatTimer, timeoutTimer). The two timer
  fields carry the names the client uses for them. The topic set is kept in insertion
  order, without duplicates.
\<close>

record WsStoredState =
  state :: WsConnectionState
  socket :: "nat option"
  topics :: "string list"
  activePingTimer :: "nat option"
  activePongTimer :: "nat option"

type_synonym WsStore = "(string \<times> WsStoredState) list"

datatype log_level = Silly | Debug | Info | Warning | LError

datatype emitted =
    EmOpen
  | EmReconnected
  | EmReconnect
  | EmClose
  | EmError js_error
  | EmResponse json
  | EmUpdate json

text \<open>
  The client: its options and store, and the effects it has had on the world: the
  transports it opened, the timers that are pending, the log, the events emitted to the
  application and the frames handed to a socket (with the socket's handle).
\<close>

record WebsocketClient =
  options :: WebsocketClientOptions
  wsStore :: WsStore
  sockets :: "WebSocket list"
  timers :: "timer list"
  nextTimer :: nat
  logs :: "(log_level \<times> string) list"
  emitted :: "emitted list"
  sent :: "(nat \<times> json) list"

section \<open>The store\<close>

text \<open>
  Modelled from the spec: a fresh Connection Record of util/WsStore.ts (spec 4.1: the
  state of an unknown key is Initial; no socket, no topic, no timer).
\<close>

definition emptyRecord :: WsStoredState where
  "emptyRecord = \<lparr>state = READY_STATE_INITIAL, socket = None, topics = [],
     activePingTimer = None, activePongTimer = None\<rparr>"

text \<open>Modelled from the spec: WsStore.get(key) of util/WsStore.ts, the record of a key if there is one.\<close>

definition get :: "WsStore \<Rightarrow> string \<Rightarrow> WsStoredState option" where
  "get st wsKey = map_of st wsKey"

text \<open>
  Modelled from the spec: WsStore.get(key, true) of util/WsStore.ts followed by an
  assignment to the record: the record is created when the key is new (spec 3, lifecycle),
  and nothing but this record changes (spec 4.1).
\<close>

definition modify :: "string \<Rightarrow> (WsStoredState \<Rightarrow> WsStoredState) \<Rightarrow> WsStore \<Rightarrow> WsStore" where
  "modify wsKey f st =
     AList.update wsKey (f (case map_of st wsKey of None \<Rightarrow> emptyRecord | Some r \<Rightarrow> r)) st"

text \<open>Modelled from the spec: WsStore.getKeys of util/WsStore.ts, the keys that have a record.\<close>

definition getKeys :: "WsStore \<Rightarrow> string list" where
  "getKeys st = map fst st"

text \<open>
  Modelled from the spec: WsStore.getConnectionState of util/WsStore.ts (spec 4.1: "state
  accessor, default = Initial for unknown keys"; "No side effects beyond the record
  mutation").
\<close>

definition getConnectionState :: "WsStore \<Rightarrow> string \<Rightarrow> WsConnectionState" where
  "getConnectionState st wsKey =
     (case get st wsKey of None \<Rightarrow> READY_STATE_INITIAL | Some r \<Rightarrow> state r)"

text \<open>
  Modelled from the spec: WsStore.setConnectionState of util/WsStore.ts (spec 4.1: the
  state accessor; only the state of this key's record changes).
\<close>

definition setConnectionState :: "WsStore \<Rightarrow> string \<Rightarrow> WsConnectionState \<Rightarrow> WsStore" where
  "setConnectionState st wsKey v = modify wsKey (\<lambda>r. r\<lparr>state := v\<rparr>) st"

text \<open>Modelled from the spec: WsStore.isConnectionState of util/WsStore.ts, a test of the state accessor.\<close>

definition isConnectionState :: "WsStore \<Rightarrow> string \<Rightarrow> WsConnectionState \<Rightarrow> bool" where
  "isConnectionState st wsKey v = (getConnectionState st wsKey = v)"

text \<open>
  Modelled from the spec: WsStore.getWs of util/WsStore.ts (spec 4.1: getSocket, the
  socket handle of the key's record, if any).
\<close>

definition getWs_store :: "WsStore \<Rightarrow> string \<Rightarrow> nat option" where
  "getWs_store st wsKey = (case get st wsKey of None \<Rightarrow> None | Some r \<Rightarrow> socket r)"

text \<open>
  Modelled from the spec: WsStore.setWs of util/WsStore.ts (spec 4.1: setSocket,
  "exclusive-ownership accessor; setting a new socket does not close a prior one").
\<close>

definition setWs :: "WsStore \<Rightarrow> string \<Rightarrow> nat \<Rightarrow> WsStore" where
  "setWs st wsKey h = modify wsKey (\<lambda>r. r\<lparr>socket := Some h\<rparr>) st"

text \<open>
  Modelled from the spec: WsStore.getTopics of util/WsStore.ts (spec 4.1: topicsFor, a
  "snapshot sequence of topic strings, order irrelevant"); the client spreads it into the
  array of a frame.
\<close>

definition getTopics :: "WsStore \<Rightarrow> string \<Rightarrow> string list" where
  "getTopics st wsKey = (case get st wsKey of None \<Rightarrow> [] | Some r \<Rightarrow> topics r)"

text \<open>
  Modelled from the spec: WsStore.addTopic of util/WsStore.ts (spec 4.1: "inserts topic
  into the key's set; no-op if already present").
\<close>

definition addTopic :: "WsStore \<Rightarrow> string \<Rightarrow> string \<Rightarrow> WsStore" where
  "addTopic st wsKey topic =
     modify wsKey (\<lambda>r. if topic \<in> set (topics r) then r else r\<lparr>topics := topics r @ [topic]\<rparr>) st"

text \<open>
  Modelled from the spec: WsStore.deleteTopic of util/WsStore.ts (spec 4.1: removeTopic,
  "removes topic; no-op if absent").
\<close>

definition deleteTopic :: "WsStore \<Rightarrow> string \<Rightarrow> string \<Rightarrow> WsStore" where
  "deleteTopic st wsKey topic = modify wsKey (\<lambda>r. r\<lparr>topics := removeAll topic (topics r)\<rparr>) st"

text \<open>
  Modelled from the spec: WsStore.isWsOpen of util/WsStore.ts (spec 3 and 4.3: the key
  is "holding an open socket"): a socket is stored and its ready state is OPEN.
\<close>

definition isWsOpen :: "WebsocketClient \<Rightarrow> string \<Rightarrow> bool" where
  "isWsOpen s wsKey =
     (case getWs_store (wsStore s) wsKey of
        None \<Rightarrow> False
      | Some h \<Rightarrow> h < length (sockets s) \<and> readyState (sockets s ! h) = OPEN)"

section \<open>The client: helpers\<close>

definition log :: "log_level \<Rightarrow> string \<Rightarrow> WebsocketClient \<Rightarrow> WebsocketClient" where
  "log lvl msg s = s\<lparr>logs := logs s @ [(lvl, msg)]\<rparr>"

definition emit :: "emitted \<Rightarrow> WebsocketClient \<Rightarrow> WebsocketClient" where
  "emit e s = s\<lparr>emitted := emitted s @ [e]\<rparr>"

text \<open>\<^verbatim>\<open>setTimeout\<close> and \<^verbatim>\<open>setInterval\<close> return a fresh handle; \<^verbatim>\<open>clearTimeout\<close> and
  \<^verbatim>\<open>clearInterval\<close> cancel the timer of a handle, whichever kind it is.\<close>

definition setTimer ::
  "timer_kind \<Rightarrow> timer_callback \<Rightarrow> int \<Rightarrow> WebsocketClient \<Rightarrow> nat \<times> WebsocketClient" where
  "setTimer knd cb ms s =
     (nextTimer s,
      s\<lparr>timers := timers s @ [\<lparr>timerId = nextTimer s, kind = knd, delay = ms, callback = cb\<rparr>],
        nextTimer := Suc (nextTimer s)\<rparr>)"

definition setTimeout :: "timer_callback \<Rightarrow> int \<Rightarrow> WebsocketClient \<Rightarrow> nat \<times> WebsocketClient" where
  "setTimeout = setTimer Timeout"

definition setInterval :: "timer_callback \<Rightarrow> int \<Rightarrow> WebsocketClient \<Rightarrow> nat \<times> WebsocketClient" where
  "setInterval = setTimer Interval"

definition clearTimeout :: "nat \<Rightarrow> WebsocketClient \<Rightarrow> WebsocketClient" where
  "clearTimeout h s = s\<lparr>timers := filter (\<lambda>t. timerId t \<noteq> h) (timers s)\<rparr>"

definition clearInterval :: "nat \<Rightarrow> WebsocketClient \<Rightarrow> WebsocketClient" where
  "clearInterval = clearTimeout"

text \<open>
  Modelled from the spec: the transport's send, which is not part of this repository
  (spec 4.3, send guard: "transport-level send failures (e.g., socket not open)"). A send
  on an open socket hands the frame to the wire; on any other socket it throws.
\<close>

definition ws_send :: "nat \<Rightarrow> json \<Rightarrow> WebsocketClient \<Rightarrow> js_error + WebsocketClient" where
  "ws_send h wsMessage s =
     (if h < length (sockets s) \<and> readyState (sockets s ! h) = OPEN
      then Inr (s\<lparr>sent := sent s @ [(h, wsMessage)]\<rparr>)
      else Inl (Error ''WebSocket is not open''))"

text \<open>
  Modelled from the spec: the transport's close, which is not part of this repository
  (spec 4.3 and 4.4: the client requests the close, and the close event that follows
  drives the state machine). The request moves a socket that is not yet closed to CLOSING.
\<close>

definition ws_close :: "nat \<Rightarrow> WebsocketClient \<Rightarrow> WebsocketClient" where
  "ws_close h s =
     (if h < length (sockets s) \<and> readyState (sockets s ! h) \<noteq> CLOSED
      then s\<lparr>sockets := (sockets s)[h := (sockets s ! h)\<lparr>readyState := CLOSING\<rparr>]\<rparr>
      else s)"

definition isLivenet :: "WebsocketClient \<Rightarrow> bool" where
  "isLivenet s = (livenet (options s) = True)"

definition isInverse :: "WebsocketClient \<Rightarrow> bool" where
  "isInverse s = (\<not> linear (options s))"

definition getWs :: "WebsocketClient \<Rightarrow> string \<Rightarrow> nat option" where
  "getWs s wsKey = getWs_store (wsStore s) wsKey"

definition setWsState :: "WebsocketClient \<Rightarrow> string \<Rightarrow> WsConnectionState \<Rightarrow> WebsocketClient" where
  "setWsState s wsKey v = s\<lparr>wsStore := setConnectionState (wsStore s) wsKey v\<rparr>"

definition getWsUrl :: "WebsocketClient \<Rightarrow> string" where
  "getWsUrl s =
     (if truthy_str (wsUrl (options s)) then (case wsUrl (options s) of None \<Rightarrow> [] | Some u \<Rightarrow> u)
      else if linear (options s) then linearEndpoints (livenet (options s))
      else inverseEndpoints (livenet (options s)))"

definition getWsKeyForTopic :: "WebsocketClient \<Rightarrow> string \<Rightarrow> string" where
  "getWsKeyForTopic s topic = (if isInverse s then defaultWsKey else getLinearWsKeyForTopic topic)"

definition tryWsSend :: "string \<Rightarrow> json \<Rightarrow> WebsocketClient \<Rightarrow> WebsocketClient" where
  "tryWsSend wsKey wsMessage s =
     (case getWs s wsKey of
        None \<Rightarrow> s
      | Some h \<Rightarrow>
          (case ws_send h wsMessage s of
             Inr s' \<Rightarrow> s'
           | Inl e \<Rightarrow> log LError ''Failed to send WS message'' s))"

text \<open>The frames are kept as the objects that \<^verbatim>\<open>JSON.stringify\<close> is applied to.\<close>

definition subscribeFrame :: "string list \<Rightarrow> json" where
  "subscribeFrame ts = JObj [(''op'', JStr ''subscribe''), (''args'', JArr (map JStr ts))]"

definition unsubscribeFrame :: "string list \<Rightarrow> json" where
  "unsubscribeFrame ts = JObj [(''op'', JStr ''unsubscribe''), (''args'', JArr (map JStr ts))]"

definition pingFrame :: json where
  "pingFrame = JObj [(''op'', JStr ''ping'')]"

definition requestSubscribeTopics :: "string \<Rightarrow> string list \<Rightarrow> WebsocketClient \<Rightarrow> WebsocketClient" where
  "requestSubscribeTopics wsKey ts s = tryWsSend wsKey (subscribeFrame ts) s"

definition requestUnsubscribeTopics :: "string \<Rightarrow> string list \<Rightarrow> WebsocketClient \<Rightarrow> WebsocketClient" where
  "requestUnsubscribeTopics wsKey ts s = tryWsSend wsKey (unsubscribeFrame ts) s"

text \<open>A timer handle (a Timeout object) is truthy, so a stored handle is always cleared.\<close>

definition clearPingTimer :: "string \<Rightarrow> WebsocketClient \<Rightarrow> WebsocketClient" where
  "clearPingTimer wsKey s =
     (case get (wsStore s) wsKey of
        None \<Rightarrow> s
      | Some wsState \<Rightarrow>
          (case activePingTimer wsState of
             None \<Rightarrow> s
           | Some h \<Rightarrow>
               (clearInterval h s)
                 \<lparr>wsStore := AList.update wsKey (wsState\<lparr>activePingTimer := None\<rparr>) (wsStore s)\<rparr>))"

definition clearPongTimer :: "string \<Rightarrow> WebsocketClient \<Rightarrow> WebsocketClient" where
  "clearPongTimer wsKey s =
     (case get (wsStore s) wsKey of
        None \<Rightarrow> s
      | Some wsState \<Rightarrow>
          (case activePongTimer wsState of
             None \<Rightarrow> s
           | Some h \<Rightarrow>
               (clearTimeout h s)
                 \<lparr>wsStore := AList.update wsKey (wsState\<lparr>activePongTimer := None\<rparr>) (wsStore s)\<rparr>))"

definition clearTimers :: "string \<Rightarrow> WebsocketClient \<Rightarrow> WebsocketClient" where
  "clearTimers wsKey s = clearPongTimer wsKey (clearPingTimer wsKey s)"

definition parseWsError :: "string \<Rightarrow> js_error \<Rightarrow> WebsocketClient \<Rightarrow> WebsocketClient" where
  "parseWsError context error s =
     (if message error = [] then log LError (context @ '' due to unexpected error: '') s
      else if message error = ''Unexpected server response: 401''
      then log LError (context @ '' due to 401 authorization failure.'') s
      else log LError ''{context} due to unexpected response error: undefined'' s)"

section \<open>The client: operations\<close>

definition ping :: "string \<Rightarrow> WebsocketClient \<Rightarrow> WebsocketClient" where
  "ping wsKey s =
     (let s1 = clearPongTimer wsKey s;
          s2 = log Silly ''Sending ping'' s1;
          s3 = tryWsSend wsKey pingFrame s2;
          (h, s4) = setTimeout (PongTimeoutCallback wsKey) (pongTimeout (options s3)) s3
      in s4\<lparr>wsStore := modify wsKey (\<lambda>r. r\<lparr>activePongTimer := Some h\<rparr>) (wsStore s4)\<rparr>)"

text \<open>The callback of the timer calls \<^verbatim>\<open>this.connect()\<close>: see \<open>runCallback\<close>.\<close>

definition reconnectWithDelay :: "string \<Rightarrow> int \<Rightarrow> WebsocketClient \<Rightarrow> WebsocketClient" where
  "reconnectWithDelay wsKey connectionDelayMs s =
     (let s1 = clearTimers wsKey s;
          s2 = (if getConnectionState (wsStore s1) wsKey \<noteq> READY_STATE_CONNECTING
                then setWsState s1 wsKey READY_STATE_RECONNECTING else s1)
      in snd (setTimeout ReconnectCallback connectionDelayMs s2))"

text \<open>
  \<^verbatim>\<open>subscribe\<close> and \<^verbatim>\<open>unsubscribe\<close> take a topic or an array of topics; a single topic
  is the list of that one topic.
\<close>

definition subscribe :: "string list \<Rightarrow> WebsocketClient \<Rightarrow> WebsocketClient" where
  "subscribe ts s =
     (let s1 = fold (\<lambda>topic s'. s'\<lparr>wsStore := addTopic (wsStore s') (getWsKeyForTopic s' topic) topic\<rparr>) ts s
      in if isConnectionState (wsStore s1) defaultWsKey READY_STATE_CONNECTED
         then fold (\<lambda>wsKey s'. requestSubscribeTopics wsKey (getTopics (wsStore s') wsKey) s')
                (getKeys (wsStore s1)) s1
         else s1)"

definition unsubscribe :: "string list \<Rightarrow> WebsocketClient \<Rightarrow> WebsocketClient" where
  "unsubscribe ts s =
     (let s1 = fold (\<lambda>topic s'. s'\<lparr>wsStore := deleteTopic (wsStore s') (getWsKeyForTopic s' topic) topic\<rparr>) ts s
      in if isConnectionState (wsStore s1) defaultWsKey READY_STATE_CONNECTED
         then fold (\<lambda>wsKey s'. requestUnsubscribeTopics wsKey (getTopics (wsStore s') wsKey) s')
                (getKeys (wsStore s1)) s1
         else s1)"

definition close :: "string \<Rightarrow> WebsocketClient \<Rightarrow> WebsocketClient" where
  "close wsKey s =
     (let s1 = log Info ''Closing connection'' s;
          s2 = setWsState s1 wsKey READY_STATE_CLOSING;
          s3 = clearTimers wsKey s2
      in case getWs s3 wsKey of None \<Rightarrow> s3 | Some h \<Rightarrow> ws_close h s3)"

text \<open>
  What \<^verbatim>\<open>connect\<close> takes from outside the client: the outcome of
  \<^verbatim>\<open>await this.client.getTimeOffset()\<close>, the clock, the signing function of
  util/requestUtils (its definition is not among the sources), and whether
  \<^verbatim>\<open>new WebSocket(url)\<close> throws.
\<close>

record ConnectEnv =
  timeOffset :: "js_error + int"
  now :: int
  signMessage :: "string \<Rightarrow> string \<Rightarrow> string"
  newWebSocket :: "string \<Rightarrow> js_error option"

definition getAuthParams :: "ConnectEnv \<Rightarrow> WebsocketClient \<Rightarrow> WebsocketClient \<times> (js_error + string)" where
  "getAuthParams env s =
     (if truthy_str (key (options s)) \<and> truthy_str (secret (options s)) then
        (let s1 = log Debug ''Getting auth'd request params'' s in
         case timeOffset env of
           Inl e \<Rightarrow> (s1, Inl e)
         | Inr off \<Rightarrow>
             (let expires = show_int (now env + off + 5000);
                  signature = signMessage env (''GET/realtime'' @ expires)
                                (case secret (options s) of None \<Rightarrow> [] | Some x \<Rightarrow> x);
                  params = [(''api_key'', key (options s)), (''expires'', Some expires),
                            (''signature'', Some signature)]
              in case serializeParams params False of
                   Inl e \<Rightarrow> (s1, Inl e)
                 | Inr q \<Rightarrow> (s1, Inr (''?'' @ q))))
      else if \<not> truthy_str (key (options s)) \<or> \<not> truthy_str (secret (options s)) then
        (log Warning ''Connot authenticate websocket, either api or private keys missing.'' s, Inr [])
      else (log Debug ''Starting public only websocket client.'' s, Inr []))"

definition connectToWsUrl ::
  "ConnectEnv \<Rightarrow> string \<Rightarrow> string \<Rightarrow> WebsocketClient \<Rightarrow> js_error + (nat \<times> WebsocketClient)" where
  "connectToWsUrl env u wsKey s =
     (case newWebSocket env u of
        Some e \<Rightarrow> Inl e
      | None \<Rightarrow>
          Inr (length (sockets s),
               s\<lparr>sockets := sockets s @ [\<lparr>url = u, handlerKey = wsKey, readyState = CONNECTING\<rparr>]\<rparr>))"

text \<open>
  \<^verbatim>\<open>connect\<close> runs up to \<^verbatim>\<open>await this.getAuthParams()\<close> (\<open>connect_start\<close>, which says
  whether it got that far) and is resumed later (\<open>connect_resume\<close>); other calls and events
  may come in between. The outcome of the auth step, with the one log entry it makes, is
  taken where the connect is resumed. \<open>connect\<close> is the two run together.
\<close>

definition connect_start :: "string \<Rightarrow> WebsocketClient \<Rightarrow> WebsocketClient \<times> bool" where
  "connect_start wsKey s =
     (if isWsOpen s wsKey then
        (log LError ''Refused to connect to ws with existing active connection'' s, False)
      else if isConnectionState (wsStore s) wsKey READY_STATE_CONNECTING then
        (log LError ''Refused to connect to ws, connection attempt already active'' s, False)
      else
        ((if state_value (getConnectionState (wsStore s) wsKey) = 0
             \<or> isConnectionState (wsStore s) wsKey READY_STATE_INITIAL
          then setWsState s wsKey READY_STATE_CONNECTING else s), True))"

definition connect_catch :: "js_error \<Rightarrow> string \<Rightarrow> WebsocketClient \<Rightarrow> WebsocketClient" where
  "connect_catch err wsKey s =
     reconnectWithDelay wsKey (reconnectTimeout (options s)) (parseWsError ''Connection failed'' err s)"

definition connect_resume :: "ConnectEnv \<Rightarrow> string \<Rightarrow> WebsocketClient \<Rightarrow> WebsocketClient" where
  "connect_resume env wsKey s =
     (case getAuthParams env s of
        (s1, Inl e) \<Rightarrow> connect_catch e wsKey s1
      | (s1, Inr authParams) \<Rightarrow>
          (case connectToWsUrl env (getWsUrl s1 @ authParams) wsKey s1 of
             Inl e \<Rightarrow> connect_catch e wsKey s1
           | Inr (ws, s2) \<Rightarrow> s2\<lparr>wsStore := setWs (wsStore s2) wsKey ws\<rparr>))"

definition connect :: "ConnectEnv \<Rightarrow> string \<Rightarrow> WebsocketClient \<Rightarrow> WebsocketClient" where
  "connect env wsKey s =
     (case connect_start wsKey s of
        (s1, False) \<Rightarrow> s1
      | (s1, True) \<Rightarrow> connect_resume env wsKey s1)"

definition onWsOpen :: "string \<Rightarrow> WebsocketClient \<Rightarrow> WebsocketClient" where
  "onWsOpen wsKey s =
     (let s1 = (if isConnectionState (wsStore s) wsKey READY_STATE_CONNECTING
                then emit EmOpen (log Info ''Websocket connected'' s)
                else if isConnectionState (wsStore s) wsKey READY_STATE_RECONNECTING
                then emit EmReconnected (log Info ''Websocket reconnected'' s)
                else s);
          s2 = setWsState s1 wsKey READY_STATE_CONNECTED;
          s3 = fold (\<lambda>wsKey s'. requestSubscribeTopics wsKey (getTopics (wsStore s') wsKey) s')
                 (getKeys (wsStore s2)) s2;
          (h, s4) = setInterval PingCallback (pingInterval (options s3)) s3
      in s4\<lparr>wsStore := modify wsKey (\<lambda>r. r\<lparr>activePingTimer := Some h\<rparr>) (wsStore s4)\<rparr>)"

definition onWsMessageResponse :: "json \<Rightarrow> string \<Rightarrow> WebsocketClient \<Rightarrow> WebsocketClient" where
  "onWsMessageResponse response wsKey s =
     (if isWsPong response then clearPongTimer wsKey (log Silly ''Received pong'' s)
      else emit (EmResponse response) s)"

definition onWsMessageUpdate :: "json \<Rightarrow> WebsocketClient \<Rightarrow> WebsocketClient" where
  "onWsMessageUpdate msg s = emit (EmUpdate msg) s"

text \<open>An inbound frame: what \<^verbatim>\<open>JSON.parse\<close> makes of it, or that it throws.\<close>

datatype frame = Malformed | Parsed json

definition onWsMessage :: "frame \<Rightarrow> string \<Rightarrow> WebsocketClient \<Rightarrow> js_error + WebsocketClient" where
  "onWsMessage event wsKey s =
     (case event of
        Malformed \<Rightarrow> Inl SyntaxError
      | Parsed msg \<Rightarrow>
          (case js_in ''success'' msg of
             Inl e \<Rightarrow> Inl e
           | Inr True \<Rightarrow> Inr (onWsMessageResponse msg wsKey s)
           | Inr False \<Rightarrow>
               (if truthy_opt (getProp msg ''topic'') then Inr (onWsMessageUpdate msg s)
                else Inr (log Warning ''Got unhandled ws message'' s))))"

definition onWsError :: "js_error \<Rightarrow> string \<Rightarrow> WebsocketClient \<Rightarrow> WebsocketClient" where
  "onWsError err wsKey s =
     (let s1 = parseWsError ''Websocket error'' err s
      in if isConnectionState (wsStore s1) wsKey READY_STATE_CONNECTED then emit (EmError err) s1
         else s1)"

definition onWsClose :: "string \<Rightarrow> WebsocketClient \<Rightarrow> WebsocketClient" where
  "onWsClose wsKey s =
     (let s1 = log Info ''Websocket connection closed'' s
      in if getConnectionState (wsStore s1) wsKey \<noteq> READY_STATE_CLOSING
         then emit EmReconnect (reconnectWithDelay wsKey (reconnectTimeout (options s1)) s1)
         else emit EmClose (setWsState s1 wsKey READY_STATE_INITIAL))"

text \<open>The constructor, up to the point where its call of \<^verbatim>\<open>connect\<close> is suspended.\<close>

definition mergeOptions :: "WSClientConfigurableOptions \<Rightarrow> WebsocketClientOptions" where
  "mergeOptions c =
     \<lparr>key = cfg_key c, secret = cfg_secret c,
      livenet = (case cfg_livenet c of None \<Rightarrow> False | Some b \<Rightarrow> b),
      linear = (case cfg_linear c of None \<Rightarrow> False | Some b \<Rightarrow> b),
      pongTimeout = (case cfg_pongTimeout c of None \<Rightarrow> 1000 | Some n \<Rightarrow> n),
      pingInterval = (case cfg_pingInterval c of None \<Rightarrow> 10000 | Some n \<Rightarrow> n),
      reconnectTimeout = (case cfg_reconnectTimeout c of None \<Rightarrow> 500 | Some n \<Rightarrow> n),
      wsUrl = cfg_wsUrl c\<rparr>"

definition newClient :: "WSClientConfigurableOptions \<Rightarrow> WebsocketClient" where
  "newClient c =
     \<lparr>options = mergeOptions c, wsStore = [], sockets = [], timers = [], nextTimer = 1,
      logs = [], emitted = [], sent = []\<rparr>"

definition constructor :: "WSClientConfigurableOptions \<Rightarrow> WebsocketClient \<times> bool" where
  "constructor c =
     connect_start defaultWsKey (setWsState (newClient c) defaultWsKey READY_STATE_INITIAL)"

section \<open>Runs of the client\<close>

text \<open>
  What can happen to a client: a call of its public interface, a pending timer firing, a
  suspended \<^verbatim>\<open>connect\<close> being resumed, and the four events of a transport it opened. The
  transport sets the ready state of the socket before it calls the handler.
\<close>

datatype event =
    Subscribe "string list"
  | Unsubscribe "string list"
  | Close string
  | TimerFires nat
  | ConnectResumes ConnectEnv string
  | TransportOpen nat
  | TransportMessage nat frame
  | TransportError nat js_error
  | TransportClose nat

text \<open>
  The three callbacks the client registers. The reconnect timeout calls
  \<^verbatim>\<open>this.connect()\<close> and the heartbeat interval calls \<^verbatim>\<open>this.ping.bind(this)\<close>: both
  without a key, so for the default key. The pong timeout closes the socket of its key.
  A call of \<^verbatim>\<open>connect\<close> from a callback runs up to its suspension.
\<close>

definition runCallback :: "timer_callback \<Rightarrow> WebsocketClient \<Rightarrow> WebsocketClient" where
  "runCallback cb s =
     (case cb of
        ReconnectCallback \<Rightarrow> fst (connect_start defaultWsKey (log Info ''Reconnecting to server'' s))
      | PingCallback \<Rightarrow> ping defaultWsKey s
      | PongTimeoutCallback wsKey \<Rightarrow>
          (let s1 = log Info ''Pong timeout - closing socket to reconnect'' s
           in case getWs s1 wsKey of None \<Rightarrow> s1 | Some h \<Rightarrow> ws_close h s1))"

text \<open>A pending timer fires: a one-shot timer is no longer pending, a repeating one stays.\<close>

definition fireTimer :: "nat \<Rightarrow> WebsocketClient \<Rightarrow> WebsocketClient" where
  "fireTimer h s =
     (case find (\<lambda>t. timerId t = h) (timers s) of
        None \<Rightarrow> s
      | Some t \<Rightarrow>
          runCallback (callback t)
            (if kind t = Timeout then s\<lparr>timers := filter (\<lambda>t. timerId t \<noteq> h) (timers s)\<rparr> else s))"

text \<open>
  The transport changes the ready state of a socket and then calls the handler that was
  bound to it; an exception that leaves the message handler leaves the client as it was.
\<close>

definition setReadyState :: "nat \<Rightarrow> WsReadyState \<Rightarrow> WebsocketClient \<Rightarrow> WebsocketClient" where
  "setReadyState h v s = s\<lparr>sockets := (sockets s)[h := (sockets s ! h)\<lparr>readyState := v\<rparr>]\<rparr>"

fun step :: "event \<Rightarrow> WebsocketClient \<Rightarrow> WebsocketClient" where
  "step (Subscribe ts) s = subscribe ts s"
| "step (Unsubscribe ts) s = unsubscribe ts s"
| "step (Close wsKey) s = close wsKey s"
| "step (TimerFires h) s = fireTimer h s"
| "step (ConnectResumes env wsKey) s = connect_resume env wsKey s"
| "step (TransportOpen h) s =
     (if h < length (sockets s)
      then onWsOpen (handlerKey (sockets s ! h)) (setReadyState h OPEN s) else s)"
| "step (TransportMessage h event) s =
     (if h < length (sockets s)
      then (case onWsMessage event (handlerKey (sockets s ! h)) s of Inl e \<Rightarrow> s | Inr s' \<Rightarrow> s')
      else s)"
| "step (TransportError h err) s =
     (if h < length (sockets s) then onWsError err (handlerKey (sockets s ! h)) s else s)"
| "step (TransportClose h) s =
     (if h < length (sockets s)
      then onWsClose (handlerKey (sockets s ! h)) (setReadyState h CLOSED s) else s)"

definition run :: "event list \<Rightarrow> WebsocketClient \<Rightarrow> WebsocketClient" where
  "run evs s = fold step evs s"

section \<open>Example clients\<close>

text \<open>
  A transport and a clock that never fail, and the options of clients without
  credentials: the default (inverse) one and a linear one.
\<close>

definition exampleEnv :: ConnectEnv where
  "exampleEnv = \<lparr>timeOffset = Inr 0, now = 0, signMessage = (\<lambda>m k. []), newWebSocket = (\<lambda>u. None)\<rparr>"

definition exampleOptions :: WSClientConfigurableOptions where
  "exampleOptions = \<lparr>cfg_key = None, cfg_secret = None, cfg_livenet = None, cfg_linear = None,
     cfg_pongTimeout = None, cfg_pingInterval = None, cfg_reconnectTimeout = None, cfg_wsUrl = None\<rparr>"

definition exampleLinearOptions :: WSClientConfigurableOptions where
  "exampleLinearOptions = exampleOptions\<lparr>cfg_linear := Some True\<rparr>"

text \<open>
  The default client after its transport (socket 0) opened; after the first heartbeat
  tick (timer 1), when a pong is awaited; and after the pong timeout (timer 2) passed and
  asked the transport to close, before the close event.
\<close>

definition exampleConnected :: WebsocketClient where
  "exampleConnected =
     run [ConnectResumes exampleEnv defaultWsKey, TransportOpen 0] (fst (constructor exampleOptions))"

definition exampleAwaitingPong :: WebsocketClient where
  "exampleAwaitingPong = run [TimerFires 1] exampleConnected"

definition exampleClosing :: WebsocketClient where
  "exampleClosing = run [TimerFires 2] exampleAwaitingPong"

text \<open>A frame with a \<^verbatim>\<open>success\<close> field and a bare \<^verbatim>\<open>pong\<close> marker.\<close>

definition examplePongFrame :: json where
  "examplePongFrame = JObj [(''success'', JBool True), (''pong'', JNum 1)]"

text \<open>
  Clients that subscribed before their transport opened, at the moment the transport has
  become open and is about to call the open handler: the default client with the topic
  \<^verbatim>\<open>trade\<close>, and the linear client with the topic \<^verbatim>\<open>wallet\<close>, which it files under the
  key \<^verbatim>\<open>private\<close>. \<open>exampleLinearConnected\<close> is the linear client after the handler ran.
\<close>

definition exampleSubscribedOpening :: WebsocketClient where
  "exampleSubscribedOpening =
     setReadyState 0 OPEN
       (run [ConnectResumes exampleEnv defaultWsKey, Subscribe [''trade'']] (fst (constructor exampleOptions)))"

definition exampleLinearOpening :: WebsocketClient where
  "exampleLinearOpening =
     setReadyState 0 OPEN
       (run [ConnectResumes exampleEnv defaultWsKey, Subscribe [''wallet'']]
          (fst (constructor exampleLinearOptions)))"

definition exampleLinearConnected :: WebsocketClient where
  "exampleLinearConnected = onWsOpen defaultWsKey exampleLinearOpening"

text \<open>
  A disconnect and reconnect of the connected default client: a heartbeat tick, the pong
  timeout, the close event of socket 0, the reconnect timer (timer 3), the resumed
  connect, and the open event of the new socket 1.
\<close>

definition exampleCycle :: "event list" where
  "exampleCycle = [TimerFires 1, TimerFires 2, TransportClose 0, TimerFires 3,
     ConnectResumes exampleEnv defaultWsKey, TransportOpen 1]"

section \<open>An invariant of the timers\<close>

text \<open>
  The timer handles a key's record holds, and the pending timers once the timer of a
  handle (if any) is cancelled.
\<close>

definition pingHandle :: "WsStore \<Rightarrow> string \<Rightarrow> nat option" where
  "pingHandle st k = (case get st k of None \<Rightarrow> None | Some r \<Rightarrow> activePingTimer r)"

definition pongHandle :: "WsStore \<Rightarrow> string \<Rightarrow> nat option" where
  "pongHandle st k = (case get st k of None \<Rightarrow> None | Some r \<Rightarrow> activePongTimer r)"

definition cancel :: "nat option \<Rightarrow> timer list \<Rightarrow> timer list" where
  "cancel ho ts = (case ho of None \<Rightarrow> ts | Some h \<Rightarrow> filter (\<lambda>t. timerId t \<noteq> h) ts)"

text \<open>
  The invariant, over the pending timers \<open>T\<close>, the next handle \<open>N\<close>, the ping and pong
  handles \<open>pi\<close> and \<open>po\<close> of the keys and their states \<open>st\<close>: pending timers have distinct
  handles below \<open>N\<close>, as have the records; a pending pong timeout of a key is the one the
  key's record holds; the timer behind a recorded pong handle is one-shot; no two keys
  record the same ping handle; and a Connected key records a pending heartbeat interval.
\<close>

definition hb_inv ::
  "timer list \<Rightarrow> nat \<Rightarrow> (string \<Rightarrow> nat option) \<Rightarrow> (string \<Rightarrow> nat option)
     \<Rightarrow> (string \<Rightarrow> WsConnectionState) \<Rightarrow> bool" where
  "hb_inv T N pi po st \<longleftrightarrow>
     distinct (map timerId T)
   \<and> (\<forall>t \<in> set T. timerId t < N)
   \<and> (\<forall>k h. pi k = Some h \<longrightarrow> h < N)
   \<and> (\<forall>k h. po k = Some h \<longrightarrow> h < N)
   \<and> (\<forall>t \<in> set T. \<forall>k. callback t = PongTimeoutCallback k \<longrightarrow> po k = Some (timerId t))
   \<and> (\<forall>t \<in> set T. \<forall>k. po k = Some (timerId t) \<longrightarrow> kind t = Timeout)
   \<and> (\<forall>k k' h. pi k = Some h \<longrightarrow> pi k' = Some h \<longrightarrow> k = k')
   \<and> (\<forall>k. st k = READY_STATE_CONNECTED \<longrightarrow>
          (\<exists>t \<in> set T. pi k = Some (timerId t) \<and> kind t = Interval \<and> callback t = PingCallback))"

definition heartbeat_inv :: "WebsocketClient \<Rightarrow> bool" where
  "heartbeat_inv s =
     hb_inv (timers s) (nextTimer s) (pingHandle (wsStore s)) (pongHandle (wsStore s))
       (getConnectionState (wsStore s))"

section \<open>An invariant of the connections\<close>

text \<open>
  \<^verbatim>\<open>connect\<close> is private and has two callers: the constructor, for the default key, and
  the callback of the reconnect timeout, without a key. In a run in which every resumed
  connect is one for the default key, the records have distinct keys, every transport is
  bound to the default key, and no other key is Connected or holds a socket.
\<close>

definition default_only :: "WebsocketClient \<Rightarrow> bool" where
  "default_only s \<longleftrightarrow>
     distinct (getKeys (wsStore s))
   \<and> set (map handlerKey (sockets s)) \<subseteq> {defaultWsKey}
   \<and> (\<forall>k. getConnectionState (wsStore s) k = READY_STATE_CONNECTED \<longrightarrow> k = defaultWsKey)
   \<and> (\<forall>k h. getWs_store (wsStore s) k = Some h \<longrightarrow> k = defaultWsKey)"

section \<open>Basic facts\<close>

lemmas store_defs = get_def modify_def getKeys_def getConnectionState_def setConnectionState_def
  isConnectionState_def getWs_store_def setWs_def getTopics_def addTopic_def deleteTopic_def
  emptyRecord_def

lemmas client_defs = log_def emit_def setTimer_def setTimeout_def setInterval_def clearTimeout_def
  clearInterval_def ws_send_def ws_close_def isLivenet_def isInverse_def getWs_def setWsState_def
  getWsUrl_def getWsKeyForTopic_def tryWsSend_def subscribeFrame_def unsubscribeFrame_def
  pingFrame_def requestSubscribeTopics_def requestUnsubscribeTopics_def clearPingTimer_def
  clearPongTimer_def clearTimers_def parseWsError_def ping_def reconnectWithDelay_def
  subscribe_def unsubscribe_def close_def getAuthParams_def connectToWsUrl_def connect_start_def
  connect_catch_def connect_resume_def connect_def onWsOpen_def onWsMessageResponse_def
  onWsMessageUpdate_def onWsMessage_def onWsError_def onWsClose_def mergeOptions_def
  newClient_def constructor_def runCallback_def fireTimer_def setReadyState_def run_def
  isWsOpen_def defaultWsKey_def inverseEndpoints_def linearEndpoints_def

lemmas example_defs = exampleEnv_def exampleOptions_def exampleLinearOptions_def

subsection \<open>The store\<close>

lemma get_modify:
  "get (modify k f st) k' =
     (if k' = k then Some (f (case get st k of None \<Rightarrow> emptyRecord | Some r \<Rightarrow> r)) else get st k')"
  by (simp add: get_def modify_def update_conv')

lemma set_getKeys_modify: "set (getKeys (modify k f st)) = insert k (set (getKeys st))"
  by (simp add: getKeys_def modify_def dom_update)

lemma getKeys_modify:
  "getKeys (modify k f st) = (if k \<in> set (getKeys st) then getKeys st else getKeys st @ [k])"
  by (simp add: getKeys_def modify_def update_keys)

lemma getTopics_modify:
  "getTopics (modify k f st) k' =
     (if k' = k then topics (f (case get st k of None \<Rightarrow> emptyRecord | Some r \<Rightarrow> r)) else getTopics st k')"
  by (simp add: getTopics_def get_modify)

lemma getWs_store_modify:
  "getWs_store (modify k f st) k' =
     (if k' = k then socket (f (case get st k of None \<Rightarrow> emptyRecord | Some r \<Rightarrow> r)) else getWs_store st k')"
  by (simp add: getWs_store_def get_modify)

lemma getConnectionState_modify:
  "getConnectionState (modify k f st) k' =
     (if k' = k then state (f (case get st k of None \<Rightarrow> emptyRecord | Some r \<Rightarrow> r))
      else getConnectionState st k')"
  by (simp add: getConnectionState_def get_modify)

lemma getTopics_modify_same:
  "(\<And>r. topics (f r) = topics r) \<Longrightarrow> getTopics (modify k f st) k' = getTopics st k'"
  by (auto simp: getTopics_def get_modify emptyRecord_def split: option.splits)

lemma getWs_store_modify_same:
  "(\<And>r. socket (f r) = socket r) \<Longrightarrow> getWs_store (modify k f st) k' = getWs_store st k'"
  by (auto simp: getWs_store_def get_modify emptyRecord_def split: option.splits)

lemma getConnectionState_modify_same:
  "(\<And>r. state (f r) = state r) \<Longrightarrow> getConnectionState (modify k f st) k' = getConnectionState st k'"
  by (auto simp: getConnectionState_def get_modify emptyRecord_def split: option.splits)

lemma getTopics_addTopic:
  "set (getTopics (addTopic st k0 t) k) = set (getTopics st k) \<union> (if k = k0 then {t} else {})"
  by (auto simp: getTopics_def addTopic_def get_modify emptyRecord_def split: option.splits)

lemma getTopics_deleteTopic:
  "set (getTopics (deleteTopic st k0 t) k) = set (getTopics st k) - (if k = k0 then {t} else {})"
  by (auto simp: getTopics_def deleteTopic_def get_modify emptyRecord_def split: option.splits)

lemma getConnectionState_addTopic [simp]:
  "getConnectionState (addTopic st k0 t) k = getConnectionState st k"
  by (simp add: addTopic_def getConnectionState_modify_same)

lemma getConnectionState_deleteTopic [simp]:
  "getConnectionState (deleteTopic st k0 t) k = getConnectionState st k"
  by (simp add: deleteTopic_def getConnectionState_modify_same)

lemma getWs_store_addTopic [simp]: "getWs_store (addTopic st k0 t) k = getWs_store st k"
  by (simp add: addTopic_def getWs_store_modify_same)

lemma getWs_store_deleteTopic [simp]: "getWs_store (deleteTopic st k0 t) k = getWs_store st k"
  by (simp add: deleteTopic_def getWs_store_modify_same)

lemma not_open_without_record:
  "k \<notin> set (getKeys (wsStore s)) \<Longrightarrow> \<not> isWsOpen s k"
  by (simp add: isWsOpen_def getWs_store_def get_def getKeys_def map_of_eq_None_iff [symmetric])

lemma isWsOpen_cong:
  "(\<And>k. getWs_store (wsStore s') k = getWs_store (wsStore s) k) \<Longrightarrow> sockets s' = sockets s
    \<Longrightarrow> isWsOpen s' k = isWsOpen s k"
  by (simp add: isWsOpen_def cong: option.case_cong)

lemma getWsKeyForTopic_cong: "options s' = options s \<Longrightarrow> getWsKeyForTopic s' t = getWsKeyForTopic s t"
  by (simp add: getWsKeyForTopic_def isInverse_def)

subsection \<open>What each helper leaves alone\<close>

lemma tryWsSend_fields [simp]:
  "wsStore (tryWsSend k m s) = wsStore s"
  "sockets (tryWsSend k m s) = sockets s"
  "timers (tryWsSend k m s) = timers s"
  "nextTimer (tryWsSend k m s) = nextTimer s"
  "emitted (tryWsSend k m s) = emitted s"
  "options (tryWsSend k m s) = options s"
  by (simp_all add: tryWsSend_def ws_send_def log_def split: option.splits)

lemma sent_tryWsSend:
  "sent (tryWsSend k m s) =
     sent s @ (if isWsOpen s k then (case getWs s k of None \<Rightarrow> [] | Some h \<Rightarrow> [(h, m)]) else [])"
  by (simp add: tryWsSend_def ws_send_def log_def isWsOpen_def getWs_def split: option.splits)

lemma isWsOpen_tryWsSend [simp]: "isWsOpen (tryWsSend k m s) k' = isWsOpen s k'"
  by (simp add: isWsOpen_def cong: option.case_cong)

lemma getWs_tryWsSend [simp]: "getWs (tryWsSend k m s) k' = getWs s k'"
  by (simp add: getWs_def)

lemma fold_send_fields [simp]:
  "wsStore (fold (\<lambda>k s'. tryWsSend k (mk (getTopics (wsStore s') k)) s') ks s) = wsStore s"
  "sockets (fold (\<lambda>k s'. tryWsSend k (mk (getTopics (wsStore s') k)) s') ks s) = sockets s"
  "timers (fold (\<lambda>k s'. tryWsSend k (mk (getTopics (wsStore s') k)) s') ks s) = timers s"
  "nextTimer (fold (\<lambda>k s'. tryWsSend k (mk (getTopics (wsStore s') k)) s') ks s) = nextTimer s"
  "emitted (fold (\<lambda>k s'. tryWsSend k (mk (getTopics (wsStore s') k)) s') ks s) = emitted s"
  "options (fold (\<lambda>k s'. tryWsSend k (mk (getTopics (wsStore s') k)) s') ks s) = options s"
  by (induction ks arbitrary: s; simp)+

lemma sent_fold_send:
  "sent (fold (\<lambda>k s'. tryWsSend k (mk (getTopics (wsStore s') k)) s') ks s) =
     sent s @ concat (map (\<lambda>k. if isWsOpen s k
                                 then (case getWs s k of None \<Rightarrow> []
                                       | Some h \<Rightarrow> [(h, mk (getTopics (wsStore s) k))])
                                 else []) ks)"
  by (induction ks arbitrary: s) (simp_all add: sent_tryWsSend cong: option.case_cong if_cong)

lemma fold_addTopic_fields [simp]:
  "sockets (fold (\<lambda>topic s'. s'\<lparr>wsStore := f s' topic\<rparr>) ts s) = sockets s"
  "timers (fold (\<lambda>topic s'. s'\<lparr>wsStore := f s' topic\<rparr>) ts s) = timers s"
  "nextTimer (fold (\<lambda>topic s'. s'\<lparr>wsStore := f s' topic\<rparr>) ts s) = nextTimer s"
  "emitted (fold (\<lambda>topic s'. s'\<lparr>wsStore := f s' topic\<rparr>) ts s) = emitted s"
  "options (fold (\<lambda>topic s'. s'\<lparr>wsStore := f s' topic\<rparr>) ts s) = options s"
  "sent (fold (\<lambda>topic s'. s'\<lparr>wsStore := f s' topic\<rparr>) ts s) = sent s"
  "logs (fold (\<lambda>topic s'. s'\<lparr>wsStore := f s' topic\<rparr>) ts s) = logs s"
  by (induction ts arbitrary: s; simp)+

lemma fold_addTopic_topics:
  "set (getTopics (wsStore (fold (\<lambda>topic s'. s'\<lparr>wsStore := addTopic (wsStore s') (getWsKeyForTopic s' topic) topic\<rparr>) ts s)) k)
     = set (getTopics (wsStore s) k) \<union> {t \<in> set ts. getWsKeyForTopic s t = k}"
proof (induction ts arbitrary: s)
  case Nil
  show ?case by simp
next
  case (Cons t ts)
  have o: "\<And>t'. getWsKeyForTopic (s\<lparr>wsStore := addTopic (wsStore s) (getWsKeyForTopic s t) t\<rparr>) t'
             = getWsKeyForTopic s t'"
    by (rule getWsKeyForTopic_cong) simp
  show ?case by (auto simp: Cons.IH o getTopics_addTopic)
qed

lemma fold_deleteTopic_topics:
  "set (getTopics (wsStore (fold (\<lambda>topic s'. s'\<lparr>wsStore := deleteTopic (wsStore s') (getWsKeyForTopic s' topic) topic\<rparr>) ts s)) k)
     = set (getTopics (wsStore s) k) - {t \<in> set ts. getWsKeyForTopic s t = k}"
proof (induction ts arbitrary: s)
  case Nil
  show ?case by simp
next
  case (Cons t ts)
  have o: "\<And>t'. getWsKeyForTopic (s\<lparr>wsStore := deleteTopic (wsStore s) (getWsKeyForTopic s t) t\<rparr>) t'
             = getWsKeyForTopic s t'"
    by (rule getWsKeyForTopic_cong) simp
  show ?case by (auto simp: Cons.IH o getTopics_deleteTopic)
qed

lemma fold_addTopic_state:
  "getConnectionState (wsStore (fold (\<lambda>topic s'. s'\<lparr>wsStore := addTopic (wsStore s') (getWsKeyForTopic s' topic) topic\<rparr>) ts s)) k
     = getConnectionState (wsStore s) k"
  "getWs_store (wsStore (fold (\<lambda>topic s'. s'\<lparr>wsStore := addTopic (wsStore s') (getWsKeyForTopic s' topic) topic\<rparr>) ts s)) k
     = getWs_store (wsStore s) k"
  by (induction ts arbitrary: s; simp)+

lemma fold_deleteTopic_state:
  "getConnectionState (wsStore (fold (\<lambda>topic s'. s'\<lparr>wsStore := deleteTopic (wsStore s') (getWsKeyForTopic s' topic) topic\<rparr>) ts s)) k
     = getConnectionState (wsStore s) k"
  "getWs_store (wsStore (fold (\<lambda>topic s'. s'\<lparr>wsStore := deleteTopic (wsStore s') (getWsKeyForTopic s' topic) topic\<rparr>) ts s)) k
     = getWs_store (wsStore s) k"
  by (induction ts arbitrary: s; simp)+

lemma clearPingTimer_fields [simp]:
  "sockets (clearPingTimer k s) = sockets s"
  "nextTimer (clearPingTimer k s) = nextTimer s"
  "emitted (clearPingTimer k s) = emitted s"
  "options (clearPingTimer k s) = options s"
  "sent (clearPingTimer k s) = sent s"
  "logs (clearPingTimer k s) = logs s"
  by (simp_all add: clearPingTimer_def clearInterval_def clearTimeout_def split: option.splits)

lemma clearPongTimer_fields [simp]:
  "sockets (clearPongTimer k s) = sockets s"
  "nextTimer (clearPongTimer k s) = nextTimer s"
  "emitted (clearPongTimer k s) = emitted s"
  "options (clearPongTimer k s) = options s"
  "sent (clearPongTimer k s) = sent s"
  "logs (clearPongTimer k s) = logs s"
  by (simp_all add: clearPongTimer_def clearTimeout_def split: option.splits)

lemma clearTimers_fields [simp]:
  "sockets (clearTimers k s) = sockets s"
  "nextTimer (clearTimers k s) = nextTimer s"
  "emitted (clearTimers k s) = emitted s"
  "options (clearTimers k s) = options s"
  "sent (clearTimers k s) = sent s"
  "logs (clearTimers k s) = logs s"
  by (simp_all add: clearTimers_def)

lemma parseWsError_fields [simp]:
  "sockets (parseWsError c e s) = sockets s"
  "nextTimer (parseWsError c e s) = nextTimer s"
  "emitted (parseWsError c e s) = emitted s"
  "options (parseWsError c e s) = options s"
  "sent (parseWsError c e s) = sent s"
  "wsStore (parseWsError c e s) = wsStore s"
  "timers (parseWsError c e s) = timers s"
  by (simp_all add: parseWsError_def log_def)

lemma reconnectWithDelay_fields [simp]:
  "sockets (reconnectWithDelay k d s) = sockets s"
  "emitted (reconnectWithDelay k d s) = emitted s"
  "options (reconnectWithDelay k d s) = options s"
  "sent (reconnectWithDelay k d s) = sent s"
  "logs (reconnectWithDelay k d s) = logs s"
  "nextTimer (reconnectWithDelay k d s) = Suc (nextTimer s)"
  "timers (reconnectWithDelay k d s) =
     timers (clearTimers k s) @ [\<lparr>timerId = nextTimer s, kind = Timeout, delay = d, callback = ReconnectCallback\<rparr>]"
  by (simp_all add: reconnectWithDelay_def Let_def setTimeout_def setTimer_def setWsState_def)

lemma getAuthParams_fields [simp]:
  "sockets (fst (getAuthParams env s)) = sockets s"
  "nextTimer (fst (getAuthParams env s)) = nextTimer s"
  "emitted (fst (getAuthParams env s)) = emitted s"
  "options (fst (getAuthParams env s)) = options s"
  "sent (fst (getAuthParams env s)) = sent s"
  "wsStore (fst (getAuthParams env s)) = wsStore s"
  "timers (fst (getAuthParams env s)) = timers s"
  by (simp_all add: getAuthParams_def log_def Let_def split: sum.splits)

lemma clearPingTimer_core:
  "wsStore x = wsStore s \<Longrightarrow> timers x = timers s \<Longrightarrow>
     wsStore (clearPingTimer k x) = wsStore (clearPingTimer k s)
     \<and> timers (clearPingTimer k x) = timers (clearPingTimer k s)"
  by (simp add: clearPingTimer_def clearInterval_def clearTimeout_def split: option.splits)

lemma clearPongTimer_core:
  "wsStore x = wsStore s \<Longrightarrow> timers x = timers s \<Longrightarrow>
     wsStore (clearPongTimer k x) = wsStore (clearPongTimer k s)
     \<and> timers (clearPongTimer k x) = timers (clearPongTimer k s)"
  by (simp add: clearPongTimer_def clearTimeout_def split: option.splits)

lemma clearTimers_core:
  "wsStore x = wsStore s \<Longrightarrow> timers x = timers s \<Longrightarrow>
     wsStore (clearTimers k x) = wsStore (clearTimers k s)
     \<and> timers (clearTimers k x) = timers (clearTimers k s)"
  unfolding clearTimers_def using clearPingTimer_core clearPongTimer_core by blast

lemma clearTimers_no_record_timers:
  assumes "\<And>r. get (wsStore s) k = Some r \<Longrightarrow> activePingTimer r = None \<and> activePongTimer r = None"
  shows "clearTimers k s = s"
  using assms by (auto simp: clearTimers_def clearPingTimer_def clearPongTimer_def split: option.splits)

subsection \<open>The operations\<close>

lemma sockets_subscribe: "sockets (subscribe ts s) = sockets s"
  by (simp add: subscribe_def Let_def requestSubscribeTopics_def)

lemma sockets_unsubscribe: "sockets (unsubscribe ts s) = sockets s"
  by (simp add: unsubscribe_def Let_def requestUnsubscribeTopics_def)

lemma sockets_close: "length (sockets (close k s)) = length (sockets s)"
  by (simp add: close_def Let_def ws_close_def setWsState_def log_def split: option.splits)

lemma subscribe_effect:
  "(\<forall>k. set (getTopics (wsStore (subscribe ts s)) k)
          = set (getTopics (wsStore s) k) \<union> {t \<in> set ts. getWsKeyForTopic s t = k})
   \<and> (\<forall>k. getConnectionState (wsStore (subscribe ts s)) k = getConnectionState (wsStore s) k)
   \<and> (\<forall>k. getWs (subscribe ts s) k = getWs s k)
   \<and> sockets (subscribe ts s) = sockets s
   \<and> sent (subscribe ts s) =
       sent s @ (if isConnectionState (wsStore s) defaultWsKey READY_STATE_CONNECTED
                 then concat (map (\<lambda>k. if isWsOpen s k
                                         then (case getWs s k of None \<Rightarrow> []
                                               | Some h \<Rightarrow> [(h, subscribeFrame (getTopics (wsStore (subscribe ts s)) k))])
                                         else []) (getKeys (wsStore (subscribe ts s))))
                 else [])"
proof -
  define s1 where "s1 = fold (\<lambda>topic s'. s'\<lparr>wsStore := addTopic (wsStore s') (getWsKeyForTopic s' topic) topic\<rparr>) ts s"
  have r: "subscribe ts s =
     (if isConnectionState (wsStore s) defaultWsKey READY_STATE_CONNECTED
      then fold (\<lambda>k s'. tryWsSend k (subscribeFrame (getTopics (wsStore s') k)) s') (getKeys (wsStore s1)) s1
      else s1)"
    by (simp add: subscribe_def Let_def s1_def requestSubscribeTopics_def isConnectionState_def
        fold_addTopic_state)
  have st: "wsStore (subscribe ts s) = wsStore s1" by (simp add: r)
  have f1: "sockets s1 = sockets s" "sent s1 = sent s" by (simp_all add: s1_def)
  have w1: "\<And>k. getWs s1 k = getWs s k" by (simp add: getWs_def s1_def fold_addTopic_state)
  have o1: "\<And>k. isWsOpen s1 k = isWsOpen s k"
    by (rule isWsOpen_cong) (simp_all add: s1_def fold_addTopic_state)
  have c1: "\<forall>k. set (getTopics (wsStore (subscribe ts s)) k)
          = set (getTopics (wsStore s) k) \<union> {t \<in> set ts. getWsKeyForTopic s t = k}"
    by (simp add: st s1_def fold_addTopic_topics)
  have c2: "\<forall>k. getConnectionState (wsStore (subscribe ts s)) k = getConnectionState (wsStore s) k"
    by (simp add: st s1_def fold_addTopic_state)
  have c3: "\<forall>k. getWs (subscribe ts s) k = getWs s k"
    using w1 by (simp add: getWs_def st)
  have c4: "sockets (subscribe ts s) = sockets s" by (simp add: r f1)
  have c5: "sent (subscribe ts s) =
       sent s @ (if isConnectionState (wsStore s) defaultWsKey READY_STATE_CONNECTED
                 then concat (map (\<lambda>k. if isWsOpen s k
                                         then (case getWs s k of None \<Rightarrow> []
                                               | Some h \<Rightarrow> [(h, subscribeFrame (getTopics (wsStore (subscribe ts s)) k))])
                                         else []) (getKeys (wsStore (subscribe ts s))))
                 else [])"
    unfolding st by (simp add: r sent_fold_send f1 w1 o1 cong: if_cong option.case_cong)
  from c1 c2 c3 c4 c5 show ?thesis by blast
qed

lemma unsubscribe_effect:
  "(\<forall>k. set (getTopics (wsStore (unsubscribe ts s)) k)
          = set (getTopics (wsStore s) k) - {t \<in> set ts. getWsKeyForTopic s t = k})
   \<and> (\<forall>k. getConnectionState (wsStore (unsubscribe ts s)) k = getConnectionState (wsStore s) k)
   \<and> (\<forall>k. getWs (unsubscribe ts s) k = getWs s k)
   \<and> sockets (unsubscribe ts s) = sockets s
   \<and> sent (unsubscribe ts s) =
       sent s @ (if isConnectionState (wsStore s) defaultWsKey READY_STATE_CONNECTED
                 then concat (map (\<lambda>k. if isWsOpen s k
                                         then (case getWs s k of None \<Rightarrow> []
                                               | Some h \<Rightarrow> [(h, unsubscribeFrame (getTopics (wsStore (unsubscribe ts s)) k))])
                                         else []) (getKeys (wsStore (unsubscribe ts s))))
                 else [])"
proof -
  define s1 where "s1 = fold (\<lambda>topic s'. s'\<lparr>wsStore := deleteTopic (wsStore s') (getWsKeyForTopic s' topic) topic\<rparr>) ts s"
  have r: "unsubscribe ts s =
     (if isConnectionState (wsStore s) defaultWsKey READY_STATE_CONNECTED
      then fold (\<lambda>k s'. tryWsSend k (unsubscribeFrame (getTopics (wsStore s') k)) s') (getKeys (wsStore s1)) s1
      else s1)"
    by (simp add: unsubscribe_def Let_def s1_def requestUnsubscribeTopics_def isConnectionState_def
        fold_deleteTopic_state)
  have st: "wsStore (unsubscribe ts s) = wsStore s1" by (simp add: r)
  have f1: "sockets s1 = sockets s" "sent s1 = sent s" by (simp_all add: s1_def)
  have w1: "\<And>k. getWs s1 k = getWs s k" by (simp add: getWs_def s1_def fold_deleteTopic_state)
  have o1: "\<And>k. isWsOpen s1 k = isWsOpen s k"
    by (rule isWsOpen_cong) (simp_all add: s1_def fold_deleteTopic_state)
  have c1: "\<forall>k. set (getTopics (wsStore (unsubscribe ts s)) k)
          = set (getTopics (wsStore s) k) - {t \<in> set ts. getWsKeyForTopic s t = k}"
    by (simp add: st s1_def fold_deleteTopic_topics)
  have c2: "\<forall>k. getConnectionState (wsStore (unsubscribe ts s)) k = getConnectionState (wsStore s) k"
    by (simp add: st s1_def fold_deleteTopic_state)
  have c3: "\<forall>k. getWs (unsubscribe ts s) k = getWs s k"
    using w1 by (simp add: getWs_def st)
  have c4: "sockets (unsubscribe ts s) = sockets s" by (simp add: r f1)
  have c5: "sent (unsubscribe ts s) =
       sent s @ (if isConnectionState (wsStore s) defaultWsKey READY_STATE_CONNECTED
                 then concat (map (\<lambda>k. if isWsOpen s k
                                         then (case getWs s k of None \<Rightarrow> []
                                               | Some h \<Rightarrow> [(h, unsubscribeFrame (getTopics (wsStore (unsubscribe ts s)) k))])
                                         else []) (getKeys (wsStore (unsubscribe ts s))))
                 else [])"
    unfolding st by (simp add: r sent_fold_send f1 w1 o1 cong: if_cong option.case_cong)
  from c1 c2 c3 c4 c5 show ?thesis by blast
qed

lemma constructor_eq:
  "constructor c =
     ((newClient c)\<lparr>wsStore := [(defaultWsKey, emptyRecord\<lparr>state := READY_STATE_CONNECTING\<rparr>)]\<rparr>, True)"
  by (simp add: constructor_def connect_start_def setWsState_def setConnectionState_def modify_def
      newClient_def isWsOpen_def getWs_store_def get_def isConnectionState_def getConnectionState_def
      emptyRecord_def)

lemma connect_resume_cases:
  "(\<exists>u. sockets (connect_resume env k s) = sockets s @ [\<lparr>url = u, handlerKey = k, readyState = CONNECTING\<rparr>]
         \<and> getWs (connect_resume env k s) k = Some (length (sockets s))
         \<and> timers (connect_resume env k s) = timers s)
   \<or> (sockets (connect_resume env k s) = sockets s
         \<and> timers (connect_resume env k s) =
             timers (clearTimers k s) @ [\<lparr>timerId = nextTimer s, kind = Timeout,
                delay = reconnectTimeout (options s), callback = ReconnectCallback\<rparr>])"
proof -
  obtain s1 res where g: "getAuthParams env s = (s1, res)" by (cases "getAuthParams env s")
  have f: "sockets s1 = sockets s" "nextTimer s1 = nextTimer s" "options s1 = options s"
    "wsStore s1 = wsStore s" "timers s1 = timers s"
    using getAuthParams_fields [of env s] by (simp_all add: g)
  have ct: "\<And>x. wsStore x = wsStore s \<Longrightarrow> timers x = timers s \<Longrightarrow> timers (clearTimers k x) = timers (clearTimers k s)"
    using clearTimers_core by blast
  have catch: "\<And>e. sockets (connect_catch e k s1) = sockets s
         \<and> timers (connect_catch e k s1) =
             timers (clearTimers k s) @ [\<lparr>timerId = nextTimer s, kind = Timeout,
                delay = reconnectTimeout (options s), callback = ReconnectCallback\<rparr>]"
  proof -
    fix e
    have "timers (clearTimers k (parseWsError ''Connection failed'' e s1)) = timers (clearTimers k s)"
      by (rule ct) (simp_all add: f)
    then show "sockets (connect_catch e k s1) = sockets s
         \<and> timers (connect_catch e k s1) =
             timers (clearTimers k s) @ [\<lparr>timerId = nextTimer s, kind = Timeout,
                delay = reconnectTimeout (options s), callback = ReconnectCallback\<rparr>]"
      by (simp add: connect_catch_def f)
  qed
  show ?thesis
  proof (cases res)
    case (Inl e)
    then have "connect_resume env k s = connect_catch e k s1" by (simp add: connect_resume_def g)
    with catch show ?thesis by simp
  next
    case (Inr a)
    show ?thesis
    proof (cases "newWebSocket env (getWsUrl s1 @ a)")
      case None
      then have "connect_resume env k s =
         s1\<lparr>sockets := sockets s1 @ [\<lparr>url = getWsUrl s1 @ a, handlerKey = k, readyState = CONNECTING\<rparr>],
            wsStore := setWs (wsStore s1) k (length (sockets s1))\<rparr>"
        by (simp add: connect_resume_def g Inr connectToWsUrl_def)
      then have "sockets (connect_resume env k s)
            = sockets s @ [\<lparr>url = getWsUrl s1 @ a, handlerKey = k, readyState = CONNECTING\<rparr>]
         \<and> getWs (connect_resume env k s) k = Some (length (sockets s))
         \<and> timers (connect_resume env k s) = timers s"
        by (simp add: f getWs_def getWs_store_def setWs_def get_modify)
      then show ?thesis by blast
    next
      case (Some e)
      then have "connect_resume env k s = connect_catch e k s1"
        by (simp add: connect_resume_def g Inr connectToWsUrl_def)
      with catch show ?thesis by simp
    qed
  qed
qed

subsection \<open>The example clients, evaluated\<close>

lemma exampleConnected_eq:
  "exampleConnected =
     \<lparr>options = mergeOptions exampleOptions,
      wsStore = [(''inverse'', \<lparr>state = READY_STATE_CONNECTED, socket = Some 0, topics = [],
                   activePingTimer = Some 1, activePongTimer = None\<rparr>)],
      sockets = [\<lparr>url = ''wss://stream-testnet.bybit.com/realtime'', handlerKey = ''inverse'',
                  readyState = OPEN\<rparr>],
      timers = [\<lparr>timerId = 1, kind = Interval, delay = 10000, callback = PingCallback\<rparr>],
      nextTimer = 2,
      logs = [(Warning, ''Connot authenticate websocket, either api or private keys missing.''),
              (Info, ''Websocket connected'')],
      emitted = [EmOpen],
      sent = [(0, subscribeFrame [])]\<rparr>"
  by (simp add: exampleConnected_def store_defs client_defs example_defs Let_def)

lemma exampleAwaitingPong_eq:
  "exampleAwaitingPong =
     exampleConnected
      \<lparr>wsStore := [(''inverse'', \<lparr>state = READY_STATE_CONNECTED, socket = Some 0, topics = [],
                   activePingTimer = Some 1, activePongTimer = Some 2\<rparr>)],
       timers := [\<lparr>timerId = 1, kind = Interval, delay = 10000, callback = PingCallback\<rparr>,
                  \<lparr>timerId = 2, kind = Timeout, delay = 1000, callback = PongTimeoutCallback ''inverse''\<rparr>],
       nextTimer := 3,
       logs := logs exampleConnected @ [(Silly, ''Sending ping'')],
       sent := [(0, subscribeFrame []), (0, pingFrame)]\<rparr>"
  by (simp add: exampleAwaitingPong_def exampleConnected_eq store_defs client_defs example_defs Let_def)

lemma exampleClosing_eq:
  "exampleClosing =
     exampleAwaitingPong
      \<lparr>sockets := [\<lparr>url = ''wss://stream-testnet.bybit.com/realtime'', handlerKey = ''inverse'',
                    readyState = CLOSING\<rparr>],
       timers := [\<lparr>timerId = 1, kind = Interval, delay = 10000, callback = PingCallback\<rparr>],
       logs := logs exampleAwaitingPong @ [(Info, ''Pong timeout - closing socket to reconnect'')]\<rparr>"
  by (simp add: exampleClosing_def exampleAwaitingPong_eq exampleConnected_eq store_defs client_defs
      example_defs Let_def)

lemma exampleSubscribedOpening_eq:
  "exampleSubscribedOpening =
     \<lparr>options = mergeOptions exampleOptions,
      wsStore = [(''inverse'', \<lparr>state = READY_STATE_CONNECTING, socket = Some 0, topics = [''trade''],
                   activePingTimer = None, activePongTimer = None\<rparr>)],
      sockets = [\<lparr>url = ''wss://stream-testnet.bybit.com/realtime'', handlerKey = ''inverse'',
                  readyState = OPEN\<rparr>],
      timers = [], nextTimer = 1,
      logs = [(Warning, ''Connot authenticate websocket, either api or private keys missing.'')],
      emitted = [], sent = []\<rparr>"
  by (simp add: exampleSubscribedOpening_def store_defs client_defs example_defs Let_def)

lemma exampleLinearOpening_eq:
  "exampleLinearOpening =
     \<lparr>options = mergeOptions exampleLinearOptions,
      wsStore = [(''inverse'', \<lparr>state = READY_STATE_CONNECTING, socket = Some 0, topics = [],
                   activePingTimer = None, activePongTimer = None\<rparr>),
                 (''private'', \<lparr>state = READY_STATE_INITIAL, socket = None, topics = [''wallet''],
                   activePingTimer = None, activePongTimer = None\<rparr>)],
      sockets = [\<lparr>url = ''wss://stream-testnet.bybit.com/realtime_public'', handlerKey = ''inverse'',
                  readyState = OPEN\<rparr>],
      timers = [], nextTimer = 1,
      logs = [(Warning, ''Connot authenticate websocket, either api or private keys missing.'')],
      emitted = [], sent = []\<rparr>"
  by (simp add: exampleLinearOpening_def store_defs client_defs example_defs Let_def)

lemma exampleLinearConnected_eq:
  "exampleLinearConnected =
     exampleLinearOpening
      \<lparr>wsStore := [(''inverse'', \<lparr>state = READY_STATE_CONNECTED, socket = Some 0, topics = [],
                   activePingTimer = Some 1, activePongTimer = None\<rparr>),
                 (''private'', \<lparr>state = READY_STATE_INITIAL, socket = None, topics = [''wallet''],
                   activePingTimer = None, activePongTimer = None\<rparr>)],
       timers := [\<lparr>timerId = 1, kind = Interval, delay = 10000, callback = PingCallback\<rparr>],
       nextTimer := 2,
       logs := logs exampleLinearOpening @ [(Info, ''Websocket connected'')],
       emitted := [EmOpen],
       sent := [(0, subscribeFrame [])]\<rparr>"
  by (simp add: exampleLinearConnected_def exampleLinearOpening_eq store_defs client_defs example_defs Let_def)

subsection \<open>The stored topics\<close>

lemma getTopics_update_timer:
  assumes "get st k = Some r" and "topics r' = topics r"
  shows "getTopics (AList.update k r' st) k' = getTopics st k'"
  using assms by (simp add: getTopics_def get_def update_conv')

lemma getTopics_clearPingTimer [simp]:
  "getTopics (wsStore (clearPingTimer k s)) k' = getTopics (wsStore s) k'"
  by (simp add: clearPingTimer_def clearInterval_def clearTimeout_def getTopics_update_timer
      split: option.splits)

lemma getTopics_clearPongTimer [simp]:
  "getTopics (wsStore (clearPongTimer k s)) k' = getTopics (wsStore s) k'"
  by (simp add: clearPongTimer_def clearTimeout_def getTopics_update_timer split: option.splits)

lemma getTopics_clearTimers [simp]:
  "getTopics (wsStore (clearTimers k s)) k' = getTopics (wsStore s) k'"
  by (simp add: clearTimers_def)

lemma getTopics_setWsState [simp]:
  "getTopics (wsStore (setWsState s k v)) k' = getTopics (wsStore s) k'"
  by (simp add: setWsState_def setConnectionState_def getTopics_modify_same)

lemma getTopics_ping [simp]: "getTopics (wsStore (ping k s)) k' = getTopics (wsStore s) k'"
  by (simp add: ping_def Let_def setTimeout_def setTimer_def getTopics_modify_same log_def)

lemma getTopics_reconnectWithDelay [simp]:
  "getTopics (wsStore (reconnectWithDelay k d s)) k' = getTopics (wsStore s) k'"
  by (simp add: reconnectWithDelay_def Let_def setTimeout_def setTimer_def)

lemma getTopics_close [simp]: "getTopics (wsStore (close k s)) k' = getTopics (wsStore s) k'"
  by (simp add: close_def Let_def ws_close_def log_def split: option.splits)

lemma getTopics_connect_start [simp]:
  "getTopics (wsStore (fst (connect_start k s))) k' = getTopics (wsStore s) k'"
  by (simp add: connect_start_def log_def)

lemma getTopics_connect_catch [simp]:
  "getTopics (wsStore (connect_catch e k s)) k' = getTopics (wsStore s) k'"
  by (simp add: connect_catch_def)

lemma getTopics_connect_resume [simp]:
  "getTopics (wsStore (connect_resume env k s)) k' = getTopics (wsStore s) k'"
proof -
  obtain s1 res where g: "getAuthParams env s = (s1, res)" by (cases "getAuthParams env s")
  have f: "wsStore s1 = wsStore s" using getAuthParams_fields(6) [of env s] by (simp add: g)
  show ?thesis
    by (simp add: connect_resume_def g f connectToWsUrl_def setWs_def getTopics_modify_same
        split: sum.splits option.splits)
qed

lemma getTopics_runCallback [simp]:
  "getTopics (wsStore (runCallback cb s)) k' = getTopics (wsStore s) k'"
  by (cases cb) (simp_all add: runCallback_def Let_def ws_close_def log_def split: option.splits)

lemma getTopics_fireTimer [simp]:
  "getTopics (wsStore (fireTimer h s)) k' = getTopics (wsStore s) k'"
  by (simp add: fireTimer_def split: option.splits)

lemma getTopics_onWsOpen [simp]:
  "getTopics (wsStore (onWsOpen k s)) k' = getTopics (wsStore s) k'"
  by (simp add: onWsOpen_def Let_def setInterval_def setTimer_def getTopics_modify_same
      requestSubscribeTopics_def emit_def log_def)

lemma getTopics_onWsMessage:
  "onWsMessage fr k s = Inr s' \<Longrightarrow> getTopics (wsStore s') k' = getTopics (wsStore s) k'"
  by (auto simp: onWsMessage_def onWsMessageResponse_def onWsMessageUpdate_def emit_def log_def
      split: frame.splits sum.splits bool.splits if_splits)

lemma getTopics_onWsError [simp]:
  "getTopics (wsStore (onWsError e k s)) k' = getTopics (wsStore s) k'"
  by (simp add: onWsError_def Let_def emit_def)

lemma getTopics_onWsClose [simp]:
  "getTopics (wsStore (onWsClose k s)) k' = getTopics (wsStore s) k'"
  by (simp add: onWsClose_def Let_def emit_def log_def)

lemma getTopics_setReadyState [simp]:
  "getTopics (wsStore (setReadyState h v s)) k' = getTopics (wsStore s) k'"
  by (simp add: setReadyState_def)

lemma getTopics_step:
  assumes "\<And>ts. ev \<noteq> Subscribe ts" and "\<And>ts. ev \<noteq> Unsubscribe ts"
  shows "getTopics (wsStore (step ev s)) k = getTopics (wsStore s) k"
  using assms by (cases ev) (auto simp: getTopics_onWsMessage split: sum.splits)

lemma getTopics_step_grows:
  assumes "\<And>ts. ev \<noteq> Unsubscribe ts"
  shows "set (getTopics (wsStore s) k) \<subseteq> set (getTopics (wsStore (step ev s)) k)"
proof (cases "\<exists>ts. ev = Subscribe ts")
  case True
  then obtain ts where "ev = Subscribe ts" by blast
  then show ?thesis using subscribe_effect [of ts s] by auto
next
  case False
  then show ?thesis using getTopics_step [of ev s k] assms by simp
qed

lemma run_append: "run (evs @ evs') s = run evs' (run evs s)"
  by (simp add: run_def)

subsection \<open>Timers, handles and states after each operation\<close>

lemma handles_modify:
  "pingHandle (modify k f st) k' =
     (if k' = k then activePingTimer (f (case get st k of None \<Rightarrow> emptyRecord | Some r \<Rightarrow> r))
      else pingHandle st k')"
  "pongHandle (modify k f st) k' =
     (if k' = k then activePongTimer (f (case get st k of None \<Rightarrow> emptyRecord | Some r \<Rightarrow> r))
      else pongHandle st k')"
  by (simp_all add: pingHandle_def pongHandle_def get_modify)

lemma record_views [simp]:
  "activePingTimer (case get st k of None \<Rightarrow> emptyRecord | Some r \<Rightarrow> r) = pingHandle st k"
  "activePongTimer (case get st k of None \<Rightarrow> emptyRecord | Some r \<Rightarrow> r) = pongHandle st k"
  "state (case get st k of None \<Rightarrow> emptyRecord | Some r \<Rightarrow> r) = getConnectionState st k"
  by (simp_all add: pingHandle_def pongHandle_def getConnectionState_def emptyRecord_def
      split: option.splits)

lemma setWsState_fields [simp]:
  "options (setWsState s k v) = options s"
  "sockets (setWsState s k v) = sockets s"
  "emitted (setWsState s k v) = emitted s"
  "sent (setWsState s k v) = sent s"
  "logs (setWsState s k v) = logs s"
  by (simp_all add: setWsState_def)

lemma handles_modify_same:
  "(\<And>r. activePingTimer (f r) = activePingTimer r) \<Longrightarrow> pingHandle (modify k f st) k' = pingHandle st k'"
  "(\<And>r. activePongTimer (f r) = activePongTimer r) \<Longrightarrow> pongHandle (modify k f st) k' = pongHandle st k'"
  by (auto simp: pingHandle_def pongHandle_def get_modify emptyRecord_def split: option.splits)

lemma handles_addTopic [simp]:
  "pingHandle (addTopic st k0 t) k = pingHandle st k"
  "pongHandle (addTopic st k0 t) k = pongHandle st k"
  "pingHandle (deleteTopic st k0 t) k = pingHandle st k"
  "pongHandle (deleteTopic st k0 t) k = pongHandle st k"
  by (simp_all add: addTopic_def deleteTopic_def handles_modify_same)

lemma fold_addTopic_handles:
  "pingHandle (wsStore (fold (\<lambda>topic s'. s'\<lparr>wsStore := addTopic (wsStore s') (getWsKeyForTopic s' topic) topic\<rparr>) ts s)) k
     = pingHandle (wsStore s) k"
  "pongHandle (wsStore (fold (\<lambda>topic s'. s'\<lparr>wsStore := addTopic (wsStore s') (getWsKeyForTopic s' topic) topic\<rparr>) ts s)) k
     = pongHandle (wsStore s) k"
  by (induction ts arbitrary: s; simp)+

lemma fold_deleteTopic_handles:
  "pingHandle (wsStore (fold (\<lambda>topic s'. s'\<lparr>wsStore := deleteTopic (wsStore s') (getWsKeyForTopic s' topic) topic\<rparr>) ts s)) k
     = pingHandle (wsStore s) k"
  "pongHandle (wsStore (fold (\<lambda>topic s'. s'\<lparr>wsStore := deleteTopic (wsStore s') (getWsKeyForTopic s' topic) topic\<rparr>) ts s)) k
     = pongHandle (wsStore s) k"
  by (induction ts arbitrary: s; simp)+

lemma subscribe_store:
  "wsStore (subscribe ts s) =
     wsStore (fold (\<lambda>topic s'. s'\<lparr>wsStore := addTopic (wsStore s') (getWsKeyForTopic s' topic) topic\<rparr>) ts s)"
  "timers (subscribe ts s) = timers s"
  "nextTimer (subscribe ts s) = nextTimer s"
  by (simp_all add: subscribe_def Let_def requestSubscribeTopics_def)

lemma unsubscribe_store:
  "wsStore (unsubscribe ts s) =
     wsStore (fold (\<lambda>topic s'. s'\<lparr>wsStore := deleteTopic (wsStore s') (getWsKeyForTopic s' topic) topic\<rparr>) ts s)"
  "timers (unsubscribe ts s) = timers s"
  "nextTimer (unsubscribe ts s) = nextTimer s"
  by (simp_all add: unsubscribe_def Let_def requestUnsubscribeTopics_def)

lemma view_setWsState [simp]:
  "timers (setWsState s k v) = timers s"
  "nextTimer (setWsState s k v) = nextTimer s"
  "pingHandle (wsStore (setWsState s k v)) k' = pingHandle (wsStore s) k'"
  "pongHandle (wsStore (setWsState s k v)) k' = pongHandle (wsStore s) k'"
  "getConnectionState (wsStore (setWsState s k v)) k' = (if k' = k then v else getConnectionState (wsStore s) k')"
  by (simp_all add: setWsState_def setConnectionState_def handles_modify
      getConnectionState_modify)

lemma view_clearPingTimer:
  "timers (clearPingTimer k s) = cancel (pingHandle (wsStore s) k) (timers s)"
  "pingHandle (wsStore (clearPingTimer k s)) k' = (if k' = k then None else pingHandle (wsStore s) k')"
  "pongHandle (wsStore (clearPingTimer k s)) k' = pongHandle (wsStore s) k'"
  "getConnectionState (wsStore (clearPingTimer k s)) k' = getConnectionState (wsStore s) k'"
  by (auto simp: clearPingTimer_def clearInterval_def clearTimeout_def cancel_def pingHandle_def
      pongHandle_def getConnectionState_def get_def update_conv' split: option.splits)

lemma view_clearPongTimer:
  "timers (clearPongTimer k s) = cancel (pongHandle (wsStore s) k) (timers s)"
  "pingHandle (wsStore (clearPongTimer k s)) k' = pingHandle (wsStore s) k'"
  "pongHandle (wsStore (clearPongTimer k s)) k' = (if k' = k then None else pongHandle (wsStore s) k')"
  "getConnectionState (wsStore (clearPongTimer k s)) k' = getConnectionState (wsStore s) k'"
  by (auto simp: clearPongTimer_def clearTimeout_def cancel_def pingHandle_def
      pongHandle_def getConnectionState_def get_def update_conv' split: option.splits)

lemma view_clearTimers:
  "timers (clearTimers k s) = cancel (pongHandle (wsStore s) k) (cancel (pingHandle (wsStore s) k) (timers s))"
  "pingHandle (wsStore (clearTimers k s)) k' = (if k' = k then None else pingHandle (wsStore s) k')"
  "pongHandle (wsStore (clearTimers k s)) k' = (if k' = k then None else pongHandle (wsStore s) k')"
  "getConnectionState (wsStore (clearTimers k s)) k' = getConnectionState (wsStore s) k'"
  by (simp_all add: clearTimers_def view_clearPingTimer view_clearPongTimer)

lemma view_ping:
  "timers (ping k s) = cancel (pongHandle (wsStore s) k) (timers s) @
     [\<lparr>timerId = nextTimer s, kind = Timeout, delay = pongTimeout (options s),
       callback = PongTimeoutCallback k\<rparr>]"
  "nextTimer (ping k s) = Suc (nextTimer s)"
  "pingHandle (wsStore (ping k s)) k' = pingHandle (wsStore s) k'"
  "pongHandle (wsStore (ping k s)) k' = (if k' = k then Some (nextTimer s) else pongHandle (wsStore s) k')"
  "getConnectionState (wsStore (ping k s)) k' = getConnectionState (wsStore s) k'"
  by (simp_all add: ping_def Let_def setTimeout_def setTimer_def log_def handles_modify
      view_clearPongTimer getConnectionState_modify)

lemma view_reconnectWithDelay:
  "timers (reconnectWithDelay k d s) =
     cancel (pongHandle (wsStore s) k) (cancel (pingHandle (wsStore s) k) (timers s)) @
     [\<lparr>timerId = nextTimer s, kind = Timeout, delay = d, callback = ReconnectCallback\<rparr>]"
  "pingHandle (wsStore (reconnectWithDelay k d s)) k' = (if k' = k then None else pingHandle (wsStore s) k')"
  "pongHandle (wsStore (reconnectWithDelay k d s)) k' = (if k' = k then None else pongHandle (wsStore s) k')"
  "getConnectionState (wsStore (reconnectWithDelay k d s)) k' =
     (if k' = k \<and> getConnectionState (wsStore s) k \<noteq> READY_STATE_CONNECTING
      then READY_STATE_RECONNECTING else getConnectionState (wsStore s) k')"
  by (simp_all add: reconnectWithDelay_def Let_def setTimeout_def setTimer_def view_clearTimers)

lemma view_close:
  "timers (close k s) = cancel (pongHandle (wsStore s) k) (cancel (pingHandle (wsStore s) k) (timers s))"
  "nextTimer (close k s) = nextTimer s"
  "pingHandle (wsStore (close k s)) k' = (if k' = k then None else pingHandle (wsStore s) k')"
  "pongHandle (wsStore (close k s)) k' = (if k' = k then None else pongHandle (wsStore s) k')"
  "getConnectionState (wsStore (close k s)) k' =
     (if k' = k then READY_STATE_CLOSING else getConnectionState (wsStore s) k')"
  by (simp_all add: close_def Let_def ws_close_def log_def view_clearTimers split: option.splits)

lemma view_onWsOpen:
  "timers (onWsOpen k s) = timers s @
     [\<lparr>timerId = nextTimer s, kind = Interval, delay = pingInterval (options s), callback = PingCallback\<rparr>]"
  "nextTimer (onWsOpen k s) = Suc (nextTimer s)"
  "pingHandle (wsStore (onWsOpen k s)) k' = (if k' = k then Some (nextTimer s) else pingHandle (wsStore s) k')"
  "pongHandle (wsStore (onWsOpen k s)) k' = pongHandle (wsStore s) k'"
  "getConnectionState (wsStore (onWsOpen k s)) k' =
     (if k' = k then READY_STATE_CONNECTED else getConnectionState (wsStore s) k')"
  by (simp_all add: onWsOpen_def Let_def setInterval_def setTimer_def requestSubscribeTopics_def
      emit_def log_def handles_modify getConnectionState_modify)

subsection \<open>The invariant is kept\<close>

lemma in_cancel: "t \<in> set (cancel ho ts) \<longleftrightarrow> t \<in> set ts \<and> ho \<noteq> Some (timerId t)"
  by (auto simp: cancel_def split: option.splits)

lemma distinct_cancel: "distinct (map timerId ts) \<Longrightarrow> distinct (map timerId (cancel ho ts))"
  by (simp add: cancel_def distinct_map_filter split: option.splits)

lemma hb_inv_parts:
  assumes "hb_inv T N pi po st"
  shows "distinct (map timerId T)"
    and "\<forall>t \<in> set T. timerId t < N"
    and "\<forall>k h. pi k = Some h \<longrightarrow> h < N"
    and "\<forall>k h. po k = Some h \<longrightarrow> h < N"
    and "\<forall>t \<in> set T. \<forall>k. callback t = PongTimeoutCallback k \<longrightarrow> po k = Some (timerId t)"
    and "\<forall>t \<in> set T. \<forall>k. po k = Some (timerId t) \<longrightarrow> kind t = Timeout"
    and "\<forall>k k' h. pi k = Some h \<longrightarrow> pi k' = Some h \<longrightarrow> k = k'"
    and "\<forall>k. st k = READY_STATE_CONNECTED \<longrightarrow>
          (\<exists>t \<in> set T. pi k = Some (timerId t) \<and> kind t = Interval \<and> callback t = PingCallback)"
  using assms unfolding hb_inv_def by blast+

lemma hb_inv_state:
  assumes "hb_inv T N pi po st"
    and "\<And>k. st' k = READY_STATE_CONNECTED \<Longrightarrow> st k = READY_STATE_CONNECTED"
  shows "hb_inv T N pi po st'"
  using assms unfolding hb_inv_def by blast

lemma hb_inv_clear_pong:
  assumes "hb_inv T N pi po st"
  shows "hb_inv (cancel (po k) T) N pi (po(k := None)) st"
proof -
  have d: "distinct (map timerId T)"
    and lt: "\<forall>t \<in> set T. timerId t < N"
    and pin: "\<forall>k h. pi k = Some h \<longrightarrow> h < N"
    and pon: "\<forall>k h. po k = Some h \<longrightarrow> h < N"
    and own: "\<forall>t \<in> set T. \<forall>k. callback t = PongTimeoutCallback k \<longrightarrow> po k = Some (timerId t)"
    and knd: "\<forall>t \<in> set T. \<forall>k. po k = Some (timerId t) \<longrightarrow> kind t = Timeout"
    and inj: "\<forall>k k' h. pi k = Some h \<longrightarrow> pi k' = Some h \<longrightarrow> k = k'"
    and hb: "\<forall>k. st k = READY_STATE_CONNECTED \<longrightarrow>
          (\<exists>t \<in> set T. pi k = Some (timerId t) \<and> kind t = Interval \<and> callback t = PingCallback)"
    using assms unfolding hb_inv_def by blast+
  have 1: "distinct (map timerId (cancel (po k) T))" using d by (rule distinct_cancel)
  have 2: "\<forall>t \<in> set (cancel (po k) T). timerId t < N" using lt by (simp add: in_cancel)
  have 4: "\<forall>k' h. (po(k := None)) k' = Some h \<longrightarrow> h < N" using pon by simp
  have 5: "\<forall>t \<in> set (cancel (po k) T). \<forall>k'. callback t = PongTimeoutCallback k' \<longrightarrow>
             (po(k := None)) k' = Some (timerId t)"
    using own by (auto simp: in_cancel)
  have 6: "\<forall>t \<in> set (cancel (po k) T). \<forall>k'. (po(k := None)) k' = Some (timerId t) \<longrightarrow> kind t = Timeout"
    using knd by (auto simp: in_cancel)
  have 8: "\<forall>k'. st k' = READY_STATE_CONNECTED \<longrightarrow>
          (\<exists>t \<in> set (cancel (po k) T). pi k' = Some (timerId t) \<and> kind t = Interval \<and> callback t = PingCallback)"
  proof (intro allI impI)
    fix k' assume "st k' = READY_STATE_CONNECTED"
    then obtain t where t: "t \<in> set T" "pi k' = Some (timerId t)" "kind t = Interval" "callback t = PingCallback"
      using hb by blast
    have "po k \<noteq> Some (timerId t)" using knd t(1,3) by force
    then have "t \<in> set (cancel (po k) T)" using t(1) by (simp add: in_cancel)
    then show "\<exists>t \<in> set (cancel (po k) T). pi k' = Some (timerId t) \<and> kind t = Interval \<and> callback t = PingCallback"
      using t by blast
  qed
  show ?thesis unfolding hb_inv_def using 1 2 pin 4 5 6 inj 8 by blast
qed

lemma hb_inv_clear_ping:
  assumes "hb_inv T N pi po st" and "st k \<noteq> READY_STATE_CONNECTED"
  shows "hb_inv (cancel (pi k) T) N (pi(k := None)) po st"
proof -
  have d: "distinct (map timerId T)"
    and lt: "\<forall>t \<in> set T. timerId t < N"
    and pin: "\<forall>k h. pi k = Some h \<longrightarrow> h < N"
    and pon: "\<forall>k h. po k = Some h \<longrightarrow> h < N"
    and own: "\<forall>t \<in> set T. \<forall>k. callback t = PongTimeoutCallback k \<longrightarrow> po k = Some (timerId t)"
    and knd: "\<forall>t \<in> set T. \<forall>k. po k = Some (timerId t) \<longrightarrow> kind t = Timeout"
    and inj: "\<forall>k k' h. pi k = Some h \<longrightarrow> pi k' = Some h \<longrightarrow> k = k'"
    and hb: "\<forall>k. st k = READY_STATE_CONNECTED \<longrightarrow>
          (\<exists>t \<in> set T. pi k = Some (timerId t) \<and> kind t = Interval \<and> callback t = PingCallback)"
    using assms(1) unfolding hb_inv_def by blast+
  have 1: "distinct (map timerId (cancel (pi k) T))" using d by (rule distinct_cancel)
  have 2: "\<forall>t \<in> set (cancel (pi k) T). timerId t < N" using lt by (simp add: in_cancel)
  have 3: "\<forall>k' h. (pi(k := None)) k' = Some h \<longrightarrow> h < N" using pin by simp
  have 5: "\<forall>t \<in> set (cancel (pi k) T). \<forall>k'. callback t = PongTimeoutCallback k' \<longrightarrow>
             po k' = Some (timerId t)"
    using own by (simp add: in_cancel)
  have 6: "\<forall>t \<in> set (cancel (pi k) T). \<forall>k'. po k' = Some (timerId t) \<longrightarrow> kind t = Timeout"
    using knd by (simp add: in_cancel)
  have 7: "\<forall>k1 k2 h. (pi(k := None)) k1 = Some h \<longrightarrow> (pi(k := None)) k2 = Some h \<longrightarrow> k1 = k2"
    using inj by (auto split: if_splits)
  have 8: "\<forall>k'. st k' = READY_STATE_CONNECTED \<longrightarrow>
          (\<exists>t \<in> set (cancel (pi k) T). (pi(k := None)) k' = Some (timerId t) \<and> kind t = Interval
              \<and> callback t = PingCallback)"
  proof (intro allI impI)
    fix k' assume c: "st k' = READY_STATE_CONNECTED"
    then have ne: "k' \<noteq> k" using assms(2) by auto
    obtain t where t: "t \<in> set T" "pi k' = Some (timerId t)" "kind t = Interval" "callback t = PingCallback"
      using hb c by blast
    have "pi k \<noteq> Some (timerId t)" using inj t(2) ne by blast
    then have "t \<in> set (cancel (pi k) T)" using t(1) by (simp add: in_cancel)
    then show "\<exists>t \<in> set (cancel (pi k) T). (pi(k := None)) k' = Some (timerId t) \<and> kind t = Interval
              \<and> callback t = PingCallback"
      using t ne by auto
  qed
  show ?thesis unfolding hb_inv_def using 1 2 3 pon 5 6 7 8 by blast
qed

lemma hb_inv_clear_both:
  assumes "hb_inv T N pi po st" and "st k \<noteq> READY_STATE_CONNECTED"
  shows "hb_inv (cancel (po k) (cancel (pi k) T)) N (pi(k := None)) (po(k := None)) st"
  using hb_inv_clear_pong [OF hb_inv_clear_ping [OF assms], of k] .

lemma hb_inv_add_timeout:
  assumes "hb_inv T N pi po st" and "\<And>k. cb \<noteq> PongTimeoutCallback k"
  shows "hb_inv (T @ [\<lparr>timerId = N, kind = Timeout, delay = d, callback = cb\<rparr>]) (Suc N) pi po st"
proof -
  note p = hb_inv_parts [OF assms(1)]
  let ?T = "T @ [\<lparr>timerId = N, kind = Timeout, delay = d, callback = cb\<rparr>]"
  have 1: "distinct (map timerId ?T)" using p(1,2) by auto
  have 2: "\<forall>t \<in> set ?T. timerId t < Suc N" using p(2) by (auto simp: less_Suc_eq)
  have 3: "\<forall>k h. pi k = Some h \<longrightarrow> h < Suc N" using p(3) by (auto simp: less_Suc_eq)
  have 4: "\<forall>k h. po k = Some h \<longrightarrow> h < Suc N" using p(4) by (auto simp: less_Suc_eq)
  have 5: "\<forall>t \<in> set ?T. \<forall>k. callback t = PongTimeoutCallback k \<longrightarrow> po k = Some (timerId t)"
    using p(5) assms(2) by auto
  have 6: "\<forall>t \<in> set ?T. \<forall>k. po k = Some (timerId t) \<longrightarrow> kind t = Timeout"
    using p(6) by auto
  have 8: "\<forall>k. st k = READY_STATE_CONNECTED \<longrightarrow>
          (\<exists>t \<in> set ?T. pi k = Some (timerId t) \<and> kind t = Interval \<and> callback t = PingCallback)"
    using p(8) by auto
  show ?thesis unfolding hb_inv_def using 1 2 3 4 5 6 p(7) 8 by blast
qed

lemma hb_inv_arm_pong:
  assumes "hb_inv T N pi po st" and "po k = None"
  shows "hb_inv (T @ [\<lparr>timerId = N, kind = Timeout, delay = d, callback = PongTimeoutCallback k\<rparr>])
           (Suc N) pi (po(k := Some N)) st"
proof -
  note p = hb_inv_parts [OF assms(1)]
  let ?T = "T @ [\<lparr>timerId = N, kind = Timeout, delay = d, callback = PongTimeoutCallback k\<rparr>]"
  have 1: "distinct (map timerId ?T)" using p(1,2) by auto
  have 2: "\<forall>t \<in> set ?T. timerId t < Suc N" using p(2) by (auto simp: less_Suc_eq)
  have 3: "\<forall>k h. pi k = Some h \<longrightarrow> h < Suc N" using p(3) by (auto simp: less_Suc_eq)
  have 4: "\<forall>k' h. (po(k := Some N)) k' = Some h \<longrightarrow> h < Suc N" using p(4) by (auto simp: less_Suc_eq)
  have 5: "\<forall>t \<in> set ?T. \<forall>k'. callback t = PongTimeoutCallback k' \<longrightarrow> (po(k := Some N)) k' = Some (timerId t)"
    using p(5) assms(2) by auto
  have 6: "\<forall>t \<in> set ?T. \<forall>k'. (po(k := Some N)) k' = Some (timerId t) \<longrightarrow> kind t = Timeout"
    using p(6) p(2) by (auto split: if_splits)
  have 8: "\<forall>k. st k = READY_STATE_CONNECTED \<longrightarrow>
          (\<exists>t \<in> set ?T. pi k = Some (timerId t) \<and> kind t = Interval \<and> callback t = PingCallback)"
    using p(8) by auto
  show ?thesis unfolding hb_inv_def using 1 2 3 4 5 6 p(7) 8 by blast
qed

lemma hb_inv_start_ping:
  assumes "hb_inv T N pi po st"
  shows "hb_inv (T @ [\<lparr>timerId = N, kind = Interval, delay = d, callback = PingCallback\<rparr>])
           (Suc N) (pi(k := Some N)) po (st(k := READY_STATE_CONNECTED))"
proof -
  note p = hb_inv_parts [OF assms(1)]
  let ?T = "T @ [\<lparr>timerId = N, kind = Interval, delay = d, callback = PingCallback\<rparr>]"
  have 1: "distinct (map timerId ?T)" using p(1,2) by auto
  have 2: "\<forall>t \<in> set ?T. timerId t < Suc N" using p(2) by (auto simp: less_Suc_eq)
  have 3: "\<forall>k' h. (pi(k := Some N)) k' = Some h \<longrightarrow> h < Suc N" using p(3) by (auto simp: less_Suc_eq)
  have 4: "\<forall>k h. po k = Some h \<longrightarrow> h < Suc N" using p(4) by (auto simp: less_Suc_eq)
  have 5: "\<forall>t \<in> set ?T. \<forall>k. callback t = PongTimeoutCallback k \<longrightarrow> po k = Some (timerId t)"
    using p(5) by auto
  have 6: "\<forall>t \<in> set ?T. \<forall>k. po k = Some (timerId t) \<longrightarrow> kind t = Timeout"
    using p(6) p(4) by auto
  have 7: "\<forall>k1 k2 h. (pi(k := Some N)) k1 = Some h \<longrightarrow> (pi(k := Some N)) k2 = Some h \<longrightarrow> k1 = k2"
    using p(7) p(3) by (auto split: if_splits)
  have 8: "\<forall>k'. (st(k := READY_STATE_CONNECTED)) k' = READY_STATE_CONNECTED \<longrightarrow>
          (\<exists>t \<in> set ?T. (pi(k := Some N)) k' = Some (timerId t) \<and> kind t = Interval \<and> callback t = PingCallback)"
    using p(8) by auto
  show ?thesis unfolding hb_inv_def using 1 2 3 4 5 6 7 8 by blast
qed

lemma hb_inv_fire_timeout:
  assumes "hb_inv T N pi po st" and "t0 \<in> set T" and "kind t0 = Timeout"
  shows "hb_inv (filter (\<lambda>t. timerId t \<noteq> timerId t0) T) N pi po st"
proof -
  note p = hb_inv_parts [OF assms(1)]
  let ?T = "filter (\<lambda>t. timerId t \<noteq> timerId t0) T"
  have 1: "distinct (map timerId ?T)" using p(1) by (simp add: distinct_map_filter)
  have 8: "\<forall>k. st k = READY_STATE_CONNECTED \<longrightarrow>
          (\<exists>t \<in> set ?T. pi k = Some (timerId t) \<and> kind t = Interval \<and> callback t = PingCallback)"
  proof (intro allI impI)
    fix k assume "st k = READY_STATE_CONNECTED"
    then obtain t where t: "t \<in> set T" "pi k = Some (timerId t)" "kind t = Interval" "callback t = PingCallback"
      using p(8) by blast
    have "timerId t \<noteq> timerId t0"
    proof
      assume "timerId t = timerId t0"
      then have "t = t0" using p(1) t(1) assms(2) by (simp add: distinct_map inj_on_def)
      then show False using t(3) assms(3) by simp
    qed
    then show "\<exists>t \<in> set ?T. pi k = Some (timerId t) \<and> kind t = Interval \<and> callback t = PingCallback"
      using t by auto
  qed
  show ?thesis unfolding hb_inv_def using 1 p(2-7) 8 by auto
qed

lemma hb_inv_pong_count:
  assumes "hb_inv T N pi po st"
  shows "length (filter (\<lambda>t. callback t = PongTimeoutCallback k) T) \<le> 1"
proof -
  note p = hb_inv_parts [OF assms]
  have "\<And>c. distinct (map timerId T) \<Longrightarrow>
          \<forall>t \<in> set T. callback t = PongTimeoutCallback k \<longrightarrow> c = Some (timerId t) \<Longrightarrow>
          length (filter (\<lambda>t. callback t = PongTimeoutCallback k) T) \<le> 1"
  proof (induction T)
    case Nil
    show ?case by simp
  next
    case (Cons a T)
    show ?case
    proof (cases "callback a = PongTimeoutCallback k")
      case True
      then have c: "c = Some (timerId a)" using Cons.prems(2) by simp
      have "\<forall>t \<in> set T. callback t \<noteq> PongTimeoutCallback k"
      proof
        fix t assume t: "t \<in> set T"
        show "callback t \<noteq> PongTimeoutCallback k"
        proof
          assume "callback t = PongTimeoutCallback k"
          then have "timerId t = timerId a" using Cons.prems(2) t c by auto
          then show False using Cons.prems(1) t by (force simp: image_iff)
        qed
      qed
      then have "filter (\<lambda>t. callback t = PongTimeoutCallback k) T = []" by (simp add: filter_empty_conv)
      then show ?thesis using True by simp
    next
      case False
      then show ?thesis using Cons by auto
    qed
  qed
  from this [OF p(1), of "po k"] p(5) show ?thesis by blast
qed

lemma heartbeat_inv_store:
  assumes "heartbeat_inv s"
    and "timers s' = timers s" and "nextTimer s' = nextTimer s"
    and "\<And>k. pingHandle (wsStore s') k = pingHandle (wsStore s) k"
    and "\<And>k. pongHandle (wsStore s') k = pongHandle (wsStore s) k"
    and "\<And>k. getConnectionState (wsStore s') k = READY_STATE_CONNECTED
            \<Longrightarrow> getConnectionState (wsStore s) k = READY_STATE_CONNECTED"
  shows "heartbeat_inv s'"
proof -
  have "pingHandle (wsStore s') = pingHandle (wsStore s)" "pongHandle (wsStore s') = pongHandle (wsStore s)"
    using assms(4,5) by auto
  then show ?thesis
    using assms(1) hb_inv_state [OF _ assms(6)] by (simp add: heartbeat_inv_def assms(2,3))
qed

lemma heartbeat_inv_same:
  assumes "heartbeat_inv s" and "timers s' = timers s" and "nextTimer s' = nextTimer s"
    and "wsStore s' = wsStore s"
  shows "heartbeat_inv s'"
  using assms by (simp add: heartbeat_inv_def)

lemma heartbeat_inv_clearPongTimer: "heartbeat_inv s \<Longrightarrow> heartbeat_inv (clearPongTimer k s)"
proof -
  assume a: "heartbeat_inv s"
  have v: "pingHandle (wsStore (clearPongTimer k s)) = pingHandle (wsStore s)"
    "pongHandle (wsStore (clearPongTimer k s)) = (pongHandle (wsStore s))(k := None)"
    "getConnectionState (wsStore (clearPongTimer k s)) = getConnectionState (wsStore s)"
    by (auto simp: view_clearPongTimer)
  show ?thesis
    using hb_inv_clear_pong [OF a [unfolded heartbeat_inv_def], of k]
    by (simp add: heartbeat_inv_def v view_clearPongTimer(1))
qed

lemma heartbeat_inv_ping: "heartbeat_inv s \<Longrightarrow> heartbeat_inv (ping k s)"
proof -
  assume a: "heartbeat_inv s"
  have v: "pingHandle (wsStore (ping k s)) = pingHandle (wsStore s)"
    "pongHandle (wsStore (ping k s)) = (pongHandle (wsStore s))(k := Some (nextTimer s))"
    "getConnectionState (wsStore (ping k s)) = getConnectionState (wsStore s)"
    by (auto simp: view_ping)
  have "hb_inv (cancel (pongHandle (wsStore s) k) (timers s)) (nextTimer s) (pingHandle (wsStore s))
          ((pongHandle (wsStore s))(k := None)) (getConnectionState (wsStore s))"
    using hb_inv_clear_pong [OF a [unfolded heartbeat_inv_def], of k] .
  from hb_inv_arm_pong [OF this, of k "pongTimeout (options s)"]
  show ?thesis by (simp add: heartbeat_inv_def v view_ping(1,2))
qed

lemma heartbeat_inv_reconnectWithDelay:
  "heartbeat_inv s \<Longrightarrow> heartbeat_inv (reconnectWithDelay k d s)"
proof -
  assume a: "heartbeat_inv s"
  let ?st = "getConnectionState (wsStore s)"
  let ?st' = "\<lambda>k'. if k' = k \<and> ?st k \<noteq> READY_STATE_CONNECTING then READY_STATE_RECONNECTING else ?st k'"
  have v: "pingHandle (wsStore (reconnectWithDelay k d s)) = (pingHandle (wsStore s))(k := None)"
    "pongHandle (wsStore (reconnectWithDelay k d s)) = (pongHandle (wsStore s))(k := None)"
    "getConnectionState (wsStore (reconnectWithDelay k d s)) = ?st'"
    by (auto simp: view_reconnectWithDelay)
  have 1: "hb_inv (timers s) (nextTimer s) (pingHandle (wsStore s)) (pongHandle (wsStore s)) ?st'"
    by (rule hb_inv_state [OF a [unfolded heartbeat_inv_def]]) (auto split: if_splits)
  have 2: "?st' k \<noteq> READY_STATE_CONNECTED" by auto
  from hb_inv_add_timeout [OF hb_inv_clear_both [OF 1 2], of ReconnectCallback d]
  show ?thesis by (simp add: heartbeat_inv_def v view_clearTimers(1))
qed

lemma heartbeat_inv_close: "heartbeat_inv s \<Longrightarrow> heartbeat_inv (close k s)"
proof -
  assume a: "heartbeat_inv s"
  let ?st = "getConnectionState (wsStore s)"
  let ?st' = "?st(k := READY_STATE_CLOSING)"
  have v: "pingHandle (wsStore (close k s)) = (pingHandle (wsStore s))(k := None)"
    "pongHandle (wsStore (close k s)) = (pongHandle (wsStore s))(k := None)"
    "getConnectionState (wsStore (close k s)) = ?st'"
    by (auto simp: view_close)
  have 1: "hb_inv (timers s) (nextTimer s) (pingHandle (wsStore s)) (pongHandle (wsStore s)) ?st'"
    by (rule hb_inv_state [OF a [unfolded heartbeat_inv_def]]) (auto split: if_splits)
  have 2: "?st' k \<noteq> READY_STATE_CONNECTED" by auto
  from hb_inv_clear_both [OF 1 2]
  show ?thesis by (simp add: heartbeat_inv_def v view_close(1,2) fun_upd_def)
qed

lemma heartbeat_inv_onWsOpen: "heartbeat_inv s \<Longrightarrow> heartbeat_inv (onWsOpen k s)"
proof -
  assume a: "heartbeat_inv s"
  have v: "pingHandle (wsStore (onWsOpen k s)) = (pingHandle (wsStore s))(k := Some (nextTimer s))"
    "pongHandle (wsStore (onWsOpen k s)) = pongHandle (wsStore s)"
    "getConnectionState (wsStore (onWsOpen k s)) = (getConnectionState (wsStore s))(k := READY_STATE_CONNECTED)"
    by (auto simp: view_onWsOpen)
  from hb_inv_start_ping [OF a [unfolded heartbeat_inv_def], of "pingInterval (options s)" k]
  show ?thesis by (simp add: heartbeat_inv_def v view_onWsOpen(1,2))
qed

lemma heartbeat_inv_setWsState:
  "heartbeat_inv s \<Longrightarrow> v \<noteq> READY_STATE_CONNECTED \<Longrightarrow> heartbeat_inv (setWsState s k v)"
  by (rule heartbeat_inv_store [of s]) (auto split: if_splits)

lemma heartbeat_inv_connect_start: "heartbeat_inv s \<Longrightarrow> heartbeat_inv (fst (connect_start k s))"
  by (auto simp: connect_start_def heartbeat_inv_setWsState intro: heartbeat_inv_same [of s] simp: log_def)

lemma heartbeat_inv_connect_resume: "heartbeat_inv s \<Longrightarrow> heartbeat_inv (connect_resume env k s)"
proof -
  assume a: "heartbeat_inv s"
  obtain s1 res where g: "getAuthParams env s = (s1, res)" by (cases "getAuthParams env s")
  have f: "wsStore s1 = wsStore s" "timers s1 = timers s" "nextTimer s1 = nextTimer s"
    using getAuthParams_fields [of env s] by (simp_all add: g)
  have 1: "heartbeat_inv s1" by (rule heartbeat_inv_same [OF a f(2) f(3) f(1)])
  have c: "\<And>e. heartbeat_inv (connect_catch e k s1)"
    unfolding connect_catch_def
    by (rule heartbeat_inv_reconnectWithDelay, rule heartbeat_inv_same [OF 1]) simp_all
  have o: "\<And>u. heartbeat_inv
     (s1\<lparr>sockets := sockets s1 @ [\<lparr>url = u, handlerKey = k, readyState = CONNECTING\<rparr>],
         wsStore := setWs (wsStore s1) k (length (sockets s1))\<rparr>)"
    by (rule heartbeat_inv_store [OF 1])
      (simp_all add: setWs_def handles_modify_same getConnectionState_modify_same)
  show ?thesis
    using c o by (simp add: connect_resume_def g connectToWsUrl_def split: sum.splits option.splits)
qed

lemma heartbeat_inv_onWsMessage:
  "heartbeat_inv s \<Longrightarrow> onWsMessage fr k s = Inr s' \<Longrightarrow> heartbeat_inv s'"
proof -
  assume a: "heartbeat_inv s" and m: "onWsMessage fr k s = Inr s'"
  have 1: "\<And>l x. heartbeat_inv (log l x s)" by (rule heartbeat_inv_same [OF a]) (simp_all add: log_def)
  have 2: "\<And>e. heartbeat_inv (emit e s)" by (rule heartbeat_inv_same [OF a]) (simp_all add: emit_def)
  show ?thesis
    using m 1 2 heartbeat_inv_clearPongTimer
    by (auto simp: onWsMessage_def onWsMessageResponse_def onWsMessageUpdate_def
        split: frame.splits sum.splits bool.splits if_splits)
qed

lemma heartbeat_inv_onWsError: "heartbeat_inv s \<Longrightarrow> heartbeat_inv (onWsError e k s)"
  by (rule heartbeat_inv_same [of s]) (simp_all add: onWsError_def Let_def emit_def)

lemma heartbeat_inv_onWsClose: "heartbeat_inv s \<Longrightarrow> heartbeat_inv (onWsClose k s)"
proof -
  assume a: "heartbeat_inv s"
  have 1: "heartbeat_inv (log Info ''Websocket connection closed'' s)"
    by (rule heartbeat_inv_same [OF a]) (simp_all add: log_def)
  have 2: "\<And>d. heartbeat_inv (emit EmReconnect (reconnectWithDelay k d (log Info ''Websocket connection closed'' s)))"
    by (rule heartbeat_inv_same [OF heartbeat_inv_reconnectWithDelay [OF 1]]) (simp_all add: emit_def)
  have 3: "heartbeat_inv (emit EmClose (setWsState (log Info ''Websocket connection closed'' s) k READY_STATE_INITIAL))"
    by (rule heartbeat_inv_same [OF heartbeat_inv_setWsState [OF 1]]) (simp_all add: emit_def)
  show ?thesis using 2 3 by (simp add: onWsClose_def Let_def)
qed

lemma heartbeat_inv_runCallback: "heartbeat_inv s \<Longrightarrow> heartbeat_inv (runCallback cb s)"
proof (cases cb)
  case ReconnectCallback
  assume a: "heartbeat_inv s"
  have "heartbeat_inv (log Info ''Reconnecting to server'' s)"
    by (rule heartbeat_inv_same [OF a]) (simp_all add: log_def)
  then show ?thesis by (simp add: runCallback_def ReconnectCallback heartbeat_inv_connect_start)
next
  case PingCallback
  assume "heartbeat_inv s"
  then show ?thesis by (simp add: runCallback_def PingCallback heartbeat_inv_ping)
next
  case (PongTimeoutCallback k)
  assume a: "heartbeat_inv s"
  show ?thesis
    by (rule heartbeat_inv_same [OF a])
      (simp_all add: runCallback_def PongTimeoutCallback Let_def ws_close_def log_def split: option.splits)
qed

lemma heartbeat_inv_fireTimer: "heartbeat_inv s \<Longrightarrow> heartbeat_inv (fireTimer h s)"
proof -
  assume a: "heartbeat_inv s"
  show ?thesis
  proof (cases "find (\<lambda>t. timerId t = h) (timers s)")
    case None
    then show ?thesis using a by (simp add: fireTimer_def)
  next
    case (Some t)
    then have t: "t \<in> set (timers s)" "timerId t = h"
      by (auto simp: find_Some_iff in_set_conv_nth)
    show ?thesis
    proof (cases "kind t = Timeout")
      case True
      have "hb_inv (filter (\<lambda>x. timerId x \<noteq> timerId t) (timers s)) (nextTimer s)
              (pingHandle (wsStore s)) (pongHandle (wsStore s)) (getConnectionState (wsStore s))"
        using hb_inv_fire_timeout [OF a [unfolded heartbeat_inv_def] t(1) True] .
      then have "heartbeat_inv (s\<lparr>timers := filter (\<lambda>x. timerId x \<noteq> h) (timers s)\<rparr>)"
        by (simp add: heartbeat_inv_def t(2))
      then show ?thesis using True by (simp add: fireTimer_def Some heartbeat_inv_runCallback)
    next
      case False
      then show ?thesis using a by (simp add: fireTimer_def Some heartbeat_inv_runCallback)
    qed
  qed
qed

lemma heartbeat_inv_subscribe: "heartbeat_inv s \<Longrightarrow> heartbeat_inv (subscribe ts s)"
  by (rule heartbeat_inv_store [of s])
    (simp_all add: subscribe_store fold_addTopic_handles fold_addTopic_state)

lemma heartbeat_inv_unsubscribe: "heartbeat_inv s \<Longrightarrow> heartbeat_inv (unsubscribe ts s)"
  by (rule heartbeat_inv_store [of s])
    (simp_all add: unsubscribe_store fold_deleteTopic_handles fold_deleteTopic_state)

lemma heartbeat_inv_setReadyState: "heartbeat_inv s \<Longrightarrow> heartbeat_inv (setReadyState h v s)"
  by (rule heartbeat_inv_same [of s]) (simp_all add: setReadyState_def)

lemma heartbeat_inv_step: "heartbeat_inv s \<Longrightarrow> heartbeat_inv (step ev s)"
  by (cases ev)
    (auto simp: heartbeat_inv_subscribe heartbeat_inv_unsubscribe heartbeat_inv_close
      heartbeat_inv_fireTimer heartbeat_inv_connect_resume heartbeat_inv_onWsOpen
      heartbeat_inv_setReadyState heartbeat_inv_onWsError heartbeat_inv_onWsClose
      dest: heartbeat_inv_onWsMessage split: sum.splits)

lemma heartbeat_inv_run: "heartbeat_inv s \<Longrightarrow> heartbeat_inv (run evs s)"
  unfolding run_def by (induction evs arbitrary: s) (simp_all add: heartbeat_inv_step)

lemma heartbeat_inv_constructor: "heartbeat_inv (fst (constructor c))"
  by (simp add: constructor_eq heartbeat_inv_def hb_inv_def newClient_def pingHandle_def
      pongHandle_def getConnectionState_def get_def emptyRecord_def)

subsection \<open>One connection, for the default key\<close>

lemma distinct_getKeys_modify: "distinct (getKeys (modify k f st)) = distinct (getKeys st)"
  by (simp add: getKeys_modify)

lemma getKeys_update_present: "get st k = Some r \<Longrightarrow> getKeys (AList.update k r' st) = getKeys st"
  by (auto simp: distinct_getKeys_modify getKeys_def get_def update_keys dest: map_of_SomeD intro: rev_image_eqI)

lemma getWs_store_update_timer:
  "get st k = Some r \<Longrightarrow> socket r' = socket r \<Longrightarrow> getWs_store (AList.update k r' st) k' = getWs_store st k'"
  by (simp add: distinct_getKeys_modify getWs_store_def get_def update_conv')

lemma conn_clearPingTimer:
  "getKeys (wsStore (clearPingTimer k s)) = getKeys (wsStore s)"
  "getWs_store (wsStore (clearPingTimer k s)) k' = getWs_store (wsStore s) k'"
  by (simp_all add: distinct_getKeys_modify clearPingTimer_def clearInterval_def clearTimeout_def getKeys_update_present
      getWs_store_update_timer split: option.splits)

lemma conn_clearPongTimer:
  "getKeys (wsStore (clearPongTimer k s)) = getKeys (wsStore s)"
  "getWs_store (wsStore (clearPongTimer k s)) k' = getWs_store (wsStore s) k'"
  by (simp_all add: distinct_getKeys_modify conn_clearPingTimer clearPongTimer_def clearTimeout_def getKeys_update_present
      getWs_store_update_timer split: option.splits)

lemma conn_clearTimers:
  "getKeys (wsStore (clearTimers k s)) = getKeys (wsStore s)"
  "getWs_store (wsStore (clearTimers k s)) k' = getWs_store (wsStore s) k'"
  by (simp_all add: distinct_getKeys_modify conn_clearPingTimer conn_clearPongTimer clearTimers_def)

lemma conn_setWsState:
  "distinct (getKeys (wsStore (setWsState s k v))) = distinct (getKeys (wsStore s))"
  "getWs_store (wsStore (setWsState s k v)) k' = getWs_store (wsStore s) k'"
  by (simp_all add: distinct_getKeys_modify conn_clearPingTimer conn_clearPongTimer conn_clearTimers setWsState_def setConnectionState_def getWs_store_modify_same)

lemma conn_ws_close:
  "wsStore (ws_close h s) = wsStore s"
  "map handlerKey (sockets (ws_close h s)) = map handlerKey (sockets s)"
  by (simp_all add: distinct_getKeys_modify conn_clearPingTimer conn_clearPongTimer conn_clearTimers conn_setWsState ws_close_def map_update list_update_same_conv)

lemma conn_setReadyState:
  "wsStore (setReadyState h v s) = wsStore s"
  "h < length (sockets s) \<Longrightarrow> map handlerKey (sockets (setReadyState h v s)) = map handlerKey (sockets s)"
  "length (sockets (setReadyState h v s)) = length (sockets s)"
  by (simp_all add: distinct_getKeys_modify conn_clearPingTimer conn_clearPongTimer conn_clearTimers conn_setWsState conn_ws_close setReadyState_def map_update list_update_same_conv)

lemma conn_ping:
  "distinct (getKeys (wsStore (ping k s))) = distinct (getKeys (wsStore s))"
  "getWs_store (wsStore (ping k s)) k' = getWs_store (wsStore s) k'"
  "sockets (ping k s) = sockets s"
  by (simp_all add: distinct_getKeys_modify conn_clearPingTimer conn_clearPongTimer conn_clearTimers conn_setWsState conn_ws_close conn_setReadyState ping_def Let_def setTimeout_def setTimer_def log_def getWs_store_modify_same)

lemma conn_reconnectWithDelay:
  "distinct (getKeys (wsStore (reconnectWithDelay k d s))) = distinct (getKeys (wsStore s))"
  "getWs_store (wsStore (reconnectWithDelay k d s)) k' = getWs_store (wsStore s) k'"
  by (simp_all add: distinct_getKeys_modify conn_clearPingTimer conn_clearPongTimer conn_clearTimers conn_setWsState conn_ws_close conn_setReadyState conn_ping reconnectWithDelay_def Let_def setTimeout_def setTimer_def)

lemma conn_close:
  "distinct (getKeys (wsStore (close k s))) = distinct (getKeys (wsStore s))"
  "getWs_store (wsStore (close k s)) k' = getWs_store (wsStore s) k'"
  "map handlerKey (sockets (close k s)) = map handlerKey (sockets s)"
  by (simp_all add: distinct_getKeys_modify conn_clearPingTimer conn_clearPongTimer conn_clearTimers conn_setWsState conn_ws_close conn_setReadyState conn_ping conn_reconnectWithDelay close_def Let_def log_def split: option.splits)

lemma conn_connect_start:
  "distinct (getKeys (wsStore (fst (connect_start k s)))) = distinct (getKeys (wsStore s))"
  "getWs_store (wsStore (fst (connect_start k s))) k' = getWs_store (wsStore s) k'"
  "sockets (fst (connect_start k s)) = sockets s"
  "getConnectionState (wsStore (fst (connect_start k s))) k' = READY_STATE_CONNECTED
     \<Longrightarrow> getConnectionState (wsStore s) k' = READY_STATE_CONNECTED"
  by (auto simp: distinct_getKeys_modify conn_clearPingTimer conn_clearPongTimer conn_clearTimers conn_setWsState conn_ws_close conn_setReadyState conn_ping conn_reconnectWithDelay conn_close connect_start_def log_def split: if_splits)

lemmas conn_simps = distinct_getKeys_modify conn_clearPingTimer conn_clearPongTimer conn_clearTimers conn_setWsState conn_ws_close conn_setReadyState conn_ping conn_reconnectWithDelay conn_close conn_connect_start(1,2,3)

lemma conn_runCallback:
  "distinct (getKeys (wsStore (runCallback cb s))) = distinct (getKeys (wsStore s))"
  "getWs_store (wsStore (runCallback cb s)) k' = getWs_store (wsStore s) k'"
  "map handlerKey (sockets (runCallback cb s)) = map handlerKey (sockets s)"
  "getConnectionState (wsStore (runCallback cb s)) k' = READY_STATE_CONNECTED
     \<Longrightarrow> getConnectionState (wsStore s) k' = READY_STATE_CONNECTED"
proof -
  show "distinct (getKeys (wsStore (runCallback cb s))) = distinct (getKeys (wsStore s))"
    by (cases cb) (simp_all add: conn_simps runCallback_def Let_def log_def split: option.splits)
  show "getWs_store (wsStore (runCallback cb s)) k' = getWs_store (wsStore s) k'"
    by (cases cb) (simp_all add: conn_simps runCallback_def Let_def log_def split: option.splits)
  show "map handlerKey (sockets (runCallback cb s)) = map handlerKey (sockets s)"
    by (cases cb) (simp_all add: conn_simps runCallback_def Let_def log_def split: option.splits)
  assume a: "getConnectionState (wsStore (runCallback cb s)) k' = READY_STATE_CONNECTED"
  show "getConnectionState (wsStore s) k' = READY_STATE_CONNECTED"
  proof (cases cb)
    case ReconnectCallback
    with a have "getConnectionState (wsStore (fst (connect_start defaultWsKey (log Info ''Reconnecting to server'' s)))) k'
                  = READY_STATE_CONNECTED" by (simp add: conn_simps runCallback_def)
    from conn_connect_start(4) [OF this] show ?thesis by (simp add: conn_simps log_def)
  next
    case PingCallback
    with a show ?thesis by (simp add: conn_simps runCallback_def view_ping)
  next
    case (PongTimeoutCallback k)
    with a show ?thesis by (simp add: conn_simps runCallback_def Let_def log_def split: option.splits)
  qed
qed

lemma fireTimer_cases:
  "fireTimer h s = s
   \<or> (\<exists>cb x. fireTimer h s = runCallback cb x \<and> wsStore x = wsStore s \<and> sockets x = sockets s)"
proof (cases "find (\<lambda>t. timerId t = h) (timers s)")
  case None
  then show ?thesis by (simp add: conn_simps fireTimer_def)
next
  case (Some t)
  let ?x = "if kind t = Timeout then s\<lparr>timers := filter (\<lambda>t. timerId t \<noteq> h) (timers s)\<rparr> else s"
  have "fireTimer h s = runCallback (callback t) ?x" using Some by (simp add: conn_simps fireTimer_def)
  moreover have "wsStore ?x = wsStore s" "sockets ?x = sockets s" by simp_all
  ultimately show ?thesis by blast
qed

lemma conn_fireTimer:
  "distinct (getKeys (wsStore (fireTimer h s))) = distinct (getKeys (wsStore s))"
  "getWs_store (wsStore (fireTimer h s)) k' = getWs_store (wsStore s) k'"
  "map handlerKey (sockets (fireTimer h s)) = map handlerKey (sockets s)"
  "getConnectionState (wsStore (fireTimer h s)) k' = READY_STATE_CONNECTED
     \<Longrightarrow> getConnectionState (wsStore s) k' = READY_STATE_CONNECTED"
proof -
  consider "fireTimer h s = s"
    | cb x where "fireTimer h s = runCallback cb x" "wsStore x = wsStore s" "sockets x = sockets s"
    using fireTimer_cases by blast
  note c = this
  show "distinct (getKeys (wsStore (fireTimer h s))) = distinct (getKeys (wsStore s))"
    using c by cases (simp_all add: conn_simps conn_runCallback)
  show "getWs_store (wsStore (fireTimer h s)) k' = getWs_store (wsStore s) k'"
    using c by cases (simp_all add: conn_simps conn_runCallback)
  show "map handlerKey (sockets (fireTimer h s)) = map handlerKey (sockets s)"
    using c by cases (simp_all add: conn_simps conn_runCallback)
  assume a: "getConnectionState (wsStore (fireTimer h s)) k' = READY_STATE_CONNECTED"
  from c show "getConnectionState (wsStore s) k' = READY_STATE_CONNECTED"
  proof cases
    case 1
    with a show ?thesis by simp
  next
    case (2 cb x)
    from a have "getConnectionState (wsStore (runCallback cb x)) k' = READY_STATE_CONNECTED"
      by (simp add: conn_simps 2(1))
    from conn_runCallback(4) [OF this] show ?thesis by (simp add: conn_simps 2(2))
  qed
qed

lemma conn_subscribe:
  "distinct (getKeys (wsStore (fold (\<lambda>topic s'. s'\<lparr>wsStore := addTopic (wsStore s') (getWsKeyForTopic s' topic) topic\<rparr>) ts s)))
     = distinct (getKeys (wsStore s))"
  "distinct (getKeys (wsStore (fold (\<lambda>topic s'. s'\<lparr>wsStore := deleteTopic (wsStore s') (getWsKeyForTopic s' topic) topic\<rparr>) ts s)))
     = distinct (getKeys (wsStore s))"
  by (induction ts arbitrary: s; simp add: conn_simps addTopic_def deleteTopic_def)+

lemma conn_onWsOpen:
  "distinct (getKeys (wsStore (onWsOpen k s))) = distinct (getKeys (wsStore s))"
  "getWs_store (wsStore (onWsOpen k s)) k' = getWs_store (wsStore s) k'"
  "sockets (onWsOpen k s) = sockets s"
  by (simp_all add: conn_simps onWsOpen_def Let_def setInterval_def setTimer_def requestSubscribeTopics_def
      emit_def log_def getWs_store_modify_same)

lemma conn_onWsMessage:
  assumes "onWsMessage fr k s = Inr s'"
  shows "getKeys (wsStore s') = getKeys (wsStore s)"
    "getWs_store (wsStore s') k' = getWs_store (wsStore s) k'"
    "sockets s' = sockets s"
    "getConnectionState (wsStore s') k' = getConnectionState (wsStore s) k'"
  using assms
  by (auto simp: conn_simps onWsMessage_def onWsMessageResponse_def onWsMessageUpdate_def emit_def log_def
      view_clearPongTimer split: frame.splits sum.splits bool.splits if_splits)

lemma conn_onWsError:
  "wsStore (onWsError e k s) = wsStore s"
  "sockets (onWsError e k s) = sockets s"
  by (simp_all add: conn_simps onWsError_def Let_def emit_def)

lemma conn_onWsClose:
  "distinct (getKeys (wsStore (onWsClose k s))) = distinct (getKeys (wsStore s))"
  "getWs_store (wsStore (onWsClose k s)) k' = getWs_store (wsStore s) k'"
  "sockets (onWsClose k s) = sockets s"
  "getConnectionState (wsStore (onWsClose k s)) k' = READY_STATE_CONNECTED
     \<Longrightarrow> getConnectionState (wsStore s) k' = READY_STATE_CONNECTED"
  by (auto simp: conn_simps onWsClose_def Let_def emit_def log_def view_reconnectWithDelay split: if_splits)

lemma conn_connect_catch:
  "distinct (getKeys (wsStore (connect_catch e k s))) = distinct (getKeys (wsStore s))"
  "getWs_store (wsStore (connect_catch e k s)) k' = getWs_store (wsStore s) k'"
  "sockets (connect_catch e k s) = sockets s"
  "getConnectionState (wsStore (connect_catch e k s)) k' = READY_STATE_CONNECTED
     \<Longrightarrow> getConnectionState (wsStore s) k' = READY_STATE_CONNECTED"
  by (auto simp: conn_simps connect_catch_def view_reconnectWithDelay split: if_splits)

lemma connect_resume_shape:
  "(\<exists>e x. connect_resume env k s = connect_catch e k x \<and> wsStore x = wsStore s \<and> sockets x = sockets s)
   \<or> (\<exists>u. wsStore (connect_resume env k s) = setWs (wsStore s) k (length (sockets s))
          \<and> sockets (connect_resume env k s) =
              sockets s @ [\<lparr>url = u, handlerKey = k, readyState = CONNECTING\<rparr>])"
proof -
  obtain s1 res where g: "getAuthParams env s = (s1, res)" by (cases "getAuthParams env s")
  have f: "wsStore s1 = wsStore s" "sockets s1 = sockets s"
    using getAuthParams_fields [of env s] by (simp_all add: conn_simps g)
  show ?thesis
  proof (cases res)
    case (Inl e)
    then have "connect_resume env k s = connect_catch e k s1" by (simp add: conn_simps connect_resume_def g)
    with f show ?thesis by blast
  next
    case (Inr a)
    show ?thesis
    proof (cases "newWebSocket env (getWsUrl s1 @ a)")
      case None
      then have "connect_resume env k s =
         s1\<lparr>sockets := sockets s1 @ [\<lparr>url = getWsUrl s1 @ a, handlerKey = k, readyState = CONNECTING\<rparr>],
            wsStore := setWs (wsStore s1) k (length (sockets s1))\<rparr>"
        by (simp add: conn_simps connect_resume_def g Inr connectToWsUrl_def)
      then have "wsStore (connect_resume env k s) = setWs (wsStore s) k (length (sockets s))
          \<and> sockets (connect_resume env k s) =
              sockets s @ [\<lparr>url = getWsUrl s1 @ a, handlerKey = k, readyState = CONNECTING\<rparr>]"
        by (simp add: conn_simps f)
      then show ?thesis by blast
    next
      case (Some e)
      then have "connect_resume env k s = connect_catch e k s1"
        by (simp add: conn_simps connect_resume_def g Inr connectToWsUrl_def)
      with f show ?thesis by blast
    qed
  qed
qed

lemma conn_connect_resume:
  "distinct (getKeys (wsStore (connect_resume env k s))) = distinct (getKeys (wsStore s))"
  "getWs_store (wsStore (connect_resume env k s)) k' = Some h \<Longrightarrow> k' = k \<or> getWs_store (wsStore s) k' = Some h"
  "w \<in> set (sockets (connect_resume env k s)) \<Longrightarrow> handlerKey w = k \<or> w \<in> set (sockets s)"
  "getConnectionState (wsStore (connect_resume env k s)) k' = READY_STATE_CONNECTED
     \<Longrightarrow> getConnectionState (wsStore s) k' = READY_STATE_CONNECTED"
proof -
  consider e x where "connect_resume env k s = connect_catch e k x" "wsStore x = wsStore s" "sockets x = sockets s"
    | u where "wsStore (connect_resume env k s) = setWs (wsStore s) k (length (sockets s))"
        "sockets (connect_resume env k s) = sockets s @ [\<lparr>url = u, handlerKey = k, readyState = CONNECTING\<rparr>]"
    using connect_resume_shape [of env k s] by blast
  note c = this
  show "distinct (getKeys (wsStore (connect_resume env k s))) = distinct (getKeys (wsStore s))"
    using c by cases (simp_all add: conn_simps conn_connect_catch setWs_def)
  show "k' = k \<or> getWs_store (wsStore s) k' = Some h"
    if "getWs_store (wsStore (connect_resume env k s)) k' = Some h"
    using c that by cases (simp_all add: conn_simps conn_connect_catch setWs_def getWs_store_modify split: if_splits)
  show "handlerKey w = k \<or> w \<in> set (sockets s)" if "w \<in> set (sockets (connect_resume env k s))"
    using c that by cases (auto simp: conn_simps conn_connect_catch)
  show "getConnectionState (wsStore s) k' = READY_STATE_CONNECTED"
    if a: "getConnectionState (wsStore (connect_resume env k s)) k' = READY_STATE_CONNECTED"
    using c
  proof cases
    case (1 e x)
    from a have "getConnectionState (wsStore (connect_catch e k x)) k' = READY_STATE_CONNECTED"
      by (simp add: conn_simps 1(1))
    from conn_connect_catch(4) [OF this] show ?thesis by (simp add: conn_simps 1(2))
  next
    case (2 u)
    with a show ?thesis by (simp add: conn_simps setWs_def getConnectionState_modify_same)
  qed
qed

lemma default_only_keep:
  assumes "default_only s"
    and "distinct (getKeys (wsStore s')) = distinct (getKeys (wsStore s))"
    and "map handlerKey (sockets s') = map handlerKey (sockets s)"
    and "\<And>k. getWs_store (wsStore s') k = getWs_store (wsStore s) k"
    and "\<And>k. getConnectionState (wsStore s') k = READY_STATE_CONNECTED
            \<Longrightarrow> getConnectionState (wsStore s) k = READY_STATE_CONNECTED"
  shows "default_only s'"
  using assms(1) assms(5) unfolding default_only_def assms(2) assms(3) assms(4) by blast

lemma default_only_subscribe: "default_only s \<Longrightarrow> default_only (subscribe ts s)"
  by (rule default_only_keep [where s = s])
    (simp_all add: conn_simps subscribe_store(1) conn_subscribe sockets_subscribe fold_addTopic_state)

lemma default_only_unsubscribe: "default_only s \<Longrightarrow> default_only (unsubscribe ts s)"
  by (rule default_only_keep [where s = s])
    (simp_all add: conn_simps unsubscribe_store(1) conn_subscribe sockets_unsubscribe fold_deleteTopic_state)

lemma default_only_close: "default_only s \<Longrightarrow> default_only (close k s)"
  by (rule default_only_keep [where s = s]) (simp_all add: conn_simps view_close(5) split: if_splits)

lemma default_only_fireTimer:
  assumes "default_only s"
  shows "default_only (fireTimer h s)"
  by (rule default_only_keep [OF assms conn_fireTimer(1) conn_fireTimer(3) conn_fireTimer(2)
        conn_fireTimer(4)])

lemma default_only_connect_resume:
  assumes "default_only s"
  shows "default_only (connect_resume env defaultWsKey s)"
proof -
  have 1: "distinct (getKeys (wsStore (connect_resume env defaultWsKey s)))"
    using assms by (simp add: conn_simps conn_connect_resume(1) default_only_def)
  have 2: "set (map handlerKey (sockets (connect_resume env defaultWsKey s))) \<subseteq> {defaultWsKey}"
  proof
    fix k assume "k \<in> set (map handlerKey (sockets (connect_resume env defaultWsKey s)))"
    then obtain w where w: "w \<in> set (sockets (connect_resume env defaultWsKey s))" "k = handlerKey w"
      by auto
    from conn_connect_resume(3) [OF w(1)] have "handlerKey w = defaultWsKey \<or> w \<in> set (sockets s)" .
    then show "k \<in> {defaultWsKey}" using assms w(2) by (auto simp: conn_simps default_only_def)
  qed
  have 3: "\<forall>k. getConnectionState (wsStore (connect_resume env defaultWsKey s)) k = READY_STATE_CONNECTED
             \<longrightarrow> k = defaultWsKey"
    using assms conn_connect_resume(4) [of env defaultWsKey s] by (simp add: conn_simps default_only_def)
  have 4: "\<forall>k h. getWs_store (wsStore (connect_resume env defaultWsKey s)) k = Some h \<longrightarrow> k = defaultWsKey"
    using assms conn_connect_resume(2) [of env defaultWsKey s] unfolding default_only_def by blast
  from 1 2 3 4 show ?thesis unfolding default_only_def by blast
qed

lemma default_only_onWsOpen:
  assumes "default_only s" and "h < length (sockets s)"
  shows "default_only (onWsOpen (handlerKey (sockets s ! h)) (setReadyState h OPEN s))"
proof -
  have d: "handlerKey (sockets s ! h) = defaultWsKey"
  proof -
    have "sockets s ! h \<in> set (sockets s)" using assms(2) by simp
    then have "handlerKey (sockets s ! h) \<in> set (map handlerKey (sockets s))" by simp
    then show ?thesis using assms(1) unfolding default_only_def by blast
  qed
  have 1: "distinct (getKeys (wsStore (onWsOpen defaultWsKey (setReadyState h OPEN s))))"
    using assms(1) by (simp add: conn_simps conn_onWsOpen default_only_def)
  have 2: "set (map handlerKey (sockets (onWsOpen defaultWsKey (setReadyState h OPEN s)))) \<subseteq> {defaultWsKey}"
    using assms by (simp only: conn_onWsOpen conn_setReadyState default_only_def)
  have 3: "\<forall>k. getConnectionState (wsStore (onWsOpen defaultWsKey (setReadyState h OPEN s))) k = READY_STATE_CONNECTED
             \<longrightarrow> k = defaultWsKey"
    using assms(1) by (auto simp: conn_simps view_onWsOpen(5) default_only_def)
  have 4: "\<forall>k h'. getWs_store (wsStore (onWsOpen defaultWsKey (setReadyState h OPEN s))) k = Some h' \<longrightarrow> k = defaultWsKey"
    using assms(1) by (simp add: conn_simps conn_onWsOpen default_only_def)
  from 1 2 3 4 show ?thesis unfolding default_only_def d by blast
qed

lemma default_only_onWsMessage:
  assumes "default_only s" and "onWsMessage fr k s = Inr s'"
  shows "default_only s'"
  by (rule default_only_keep [OF assms(1)]) (simp_all add: conn_simps conn_onWsMessage [OF assms(2)])

lemma default_only_onWsError: "default_only s \<Longrightarrow> default_only (onWsError e k s)"
  by (rule default_only_keep [where s = s]) (simp_all add: conn_simps conn_onWsError)

lemma default_only_onWsClose:
  assumes "default_only s" and "h < length (sockets s)"
  shows "default_only (onWsClose k (setReadyState h v s))"
proof (rule default_only_keep [OF assms(1)])
  fix k'
  assume "getConnectionState (wsStore (onWsClose k (setReadyState h v s))) k' = READY_STATE_CONNECTED"
  from conn_onWsClose(4) [OF this]
  show "getConnectionState (wsStore s) k' = READY_STATE_CONNECTED" by (simp add: conn_simps)
qed (simp_all add: conn_simps conn_onWsClose assms(2))

lemma default_only_step:
  assumes "default_only s" and "\<And>env k. ev = ConnectResumes env k \<Longrightarrow> k = defaultWsKey"
  shows "default_only (step ev s)"
proof (cases ev)
  case (ConnectResumes env k)
  with assms(2) have "k = defaultWsKey" by simp
  with ConnectResumes show ?thesis using assms(1) by (simp add: conn_simps default_only_connect_resume)
next
  case (TransportMessage h fr)
  show ?thesis
  proof (cases "onWsMessage fr (handlerKey (sockets s ! h)) s")
    case (Inl e)
    with TransportMessage show ?thesis using assms(1) by simp
  next
    case (Inr s')
    with TransportMessage show ?thesis using assms(1) default_only_onWsMessage [OF assms(1) Inr] by simp
  qed
qed (simp_all add: conn_simps assms(1) default_only_subscribe default_only_unsubscribe default_only_close
      default_only_fireTimer default_only_onWsOpen default_only_onWsError default_only_onWsClose)

lemma default_only_run:
  assumes "default_only s" and "\<forall>env k. ConnectResumes env k \<in> set evs \<longrightarrow> k = defaultWsKey"
  shows "default_only (run evs s)"
  using assms unfolding run_def
proof (induction evs arbitrary: s)
  case Nil
  then show ?case by simp
next
  case (Cons ev evs)
  have "default_only (step ev s)"
    by (rule default_only_step [OF Cons.prems(1)]) (use Cons.prems(2) in auto)
  from Cons.IH [OF this] Cons.prems(2) show ?case by simp
qed

lemma default_only_constructor: "default_only (fst (constructor c))"
  by (simp add: conn_simps constructor_eq default_only_def newClient_def getKeys_def getConnectionState_def
      getWs_store_def get_def emptyRecord_def)

lemma concat_single:
  assumes "distinct ks" and "k \<in> set ks" and "\<And>k'. k' \<in> set ks \<Longrightarrow> k' \<noteq> k \<Longrightarrow> F k' = []"
  shows "concat (map F ks) = F k"
  using assms
proof (induction ks)
  case Nil
  then show ?case by simp
next
  case (Cons a ks)
  show ?case
  proof (cases "a = k")
    case True
    then have "k \<notin> set ks" using Cons.prems(1) by simp
    then have "\<And>k'. k' \<in> set ks \<Longrightarrow> F k' = []" using Cons.prems(3) by auto
    then have "concat (map F ks) = []" by simp
    with True show ?thesis by simp
  next
    case False
    then have "F a = []" using Cons.prems(3) by simp
    moreover have "concat (map F ks) = F k"
      using Cons.IH Cons.prems False by auto
    ultimately show ?thesis by simp
  qed
qed

lemma stored_socket_has_record: "getWs_store st k = Some h \<Longrightarrow> k \<in> set (getKeys st)"
  by (auto simp: conn_simps getWs_store_def get_def getKeys_def split: option.splits dest: map_of_SomeD
      intro: rev_image_eqI)



section \<open>The claims\<close>

text \<open>
  C1, as amended. When the open event of a key's transport is handled, the key's state
  becomes Connected; \<^verbatim>\<open>open\<close> is emitted if the state was Connecting and \<^verbatim>\<open>reconnected\<close>
  if it was Reconnecting (nothing otherwise); the stored topics are untouched; for each key
  of the store, in order, one subscribe frame carrying exactly the key's stored topics is
  handed to the key's own socket if the key holds an open socket, and nothing is sent for
  a key that holds none; and the repeating heartbeat timer is started and recorded for
  the key.
\<close>

theorem onWsOpen_effect:
  "getConnectionState (wsStore (onWsOpen wsKey s)) wsKey = READY_STATE_CONNECTED
   \<and> emitted (onWsOpen wsKey s) =
       emitted s @ (if isConnectionState (wsStore s) wsKey READY_STATE_CONNECTING then [EmOpen]
                    else if isConnectionState (wsStore s) wsKey READY_STATE_RECONNECTING
                    then [EmReconnected] else [])
   \<and> (\<forall>k. getTopics (wsStore (onWsOpen wsKey s)) k = getTopics (wsStore s) k)
   \<and> set (getKeys (wsStore (onWsOpen wsKey s))) = insert wsKey (set (getKeys (wsStore s)))
   \<and> sent (onWsOpen wsKey s) =
       sent s @ concat (map (\<lambda>k. if isWsOpen s k
                                   then (case getWs s k of None \<Rightarrow> []
                                         | Some h \<Rightarrow> [(h, subscribeFrame (getTopics (wsStore s) k))])
                                   else []) (getKeys (wsStore s)))
   \<and> timers (onWsOpen wsKey s) =
       timers s @ [\<lparr>timerId = nextTimer s, kind = Interval, delay = pingInterval (options s),
                    callback = PingCallback\<rparr>]
   \<and> (\<exists>r. get (wsStore (onWsOpen wsKey s)) wsKey = Some r \<and> activePingTimer r = Some (nextTimer s))
   \<and> (isWsOpen s wsKey \<longrightarrow>
        (\<exists>h. getWs s wsKey = Some h
           \<and> (h, subscribeFrame (getTopics (wsStore s) wsKey)) \<in> set (sent (onWsOpen wsKey s))))"
proof -
  define s1 where "s1 = (if isConnectionState (wsStore s) wsKey READY_STATE_CONNECTING
                then emit EmOpen (log Info ''Websocket connected'' s)
                else if isConnectionState (wsStore s) wsKey READY_STATE_RECONNECTING
                then emit EmReconnected (log Info ''Websocket reconnected'' s)
                else s)"
  define s2 where "s2 = setWsState s1 wsKey READY_STATE_CONNECTED"
  define s3 where "s3 = fold (\<lambda>k s'. tryWsSend k (subscribeFrame (getTopics (wsStore s') k)) s')
                 (getKeys (wsStore s2)) s2"
  have r: "onWsOpen wsKey s =
      s3\<lparr>timers := timers s3 @ [\<lparr>timerId = nextTimer s3, kind = Interval,
                                  delay = pingInterval (options s3), callback = PingCallback\<rparr>],
         nextTimer := Suc (nextTimer s3),
         wsStore := modify wsKey (\<lambda>r. r\<lparr>activePingTimer := Some (nextTimer s3)\<rparr>) (wsStore s3)\<rparr>"
    by (simp add: onWsOpen_def Let_def s1_def s2_def s3_def setInterval_def setTimer_def
        requestSubscribeTopics_def)
  have f1: "wsStore s1 = wsStore s" "sockets s1 = sockets s" "timers s1 = timers s"
    "nextTimer s1 = nextTimer s" "options s1 = options s" "sent s1 = sent s"
    by (simp_all add: s1_def emit_def log_def)
  have e1: "emitted s1 = emitted s @ (if isConnectionState (wsStore s) wsKey READY_STATE_CONNECTING then [EmOpen]
                    else if isConnectionState (wsStore s) wsKey READY_STATE_RECONNECTING
                    then [EmReconnected] else [])"
    by (simp add: s1_def emit_def log_def)
  have f2: "wsStore s2 = setConnectionState (wsStore s) wsKey READY_STATE_CONNECTED"
    "sockets s2 = sockets s" "timers s2 = timers s" "nextTimer s2 = nextTimer s"
    "options s2 = options s" "sent s2 = sent s" "emitted s2 = emitted s1"
    by (simp_all add: s2_def setWsState_def f1)
  have f3: "wsStore s3 = wsStore s2" "sockets s3 = sockets s" "timers s3 = timers s"
    "nextTimer s3 = nextTimer s" "options s3 = options s" "emitted s3 = emitted s1"
    by (simp_all add: s3_def f2)
  have t2: "\<And>k. getTopics (wsStore s2) k = getTopics (wsStore s) k"
    by (simp add: f2 setConnectionState_def getTopics_modify_same)
  have w2: "\<And>k. getWs s2 k = getWs s k"
    by (simp add: f2 getWs_def setConnectionState_def getWs_store_modify_same)
  have o2: "\<And>k. isWsOpen s2 k = isWsOpen s k"
    using w2 by (simp add: isWsOpen_def getWs_def f2 cong: option.case_cong)
  have new_key: "wsKey \<notin> set (getKeys (wsStore s)) \<Longrightarrow> \<not> isWsOpen s wsKey"
    by (rule not_open_without_record)
  have "sent s3 = sent s @ concat (map (\<lambda>k. if isWsOpen s k
                                   then (case getWs s k of None \<Rightarrow> []
                                         | Some h \<Rightarrow> [(h, subscribeFrame (getTopics (wsStore s) k))])
                                   else []) (getKeys (wsStore s2)))"
    by (simp add: s3_def sent_fold_send f2(6) t2 w2 o2 cong: if_cong option.case_cong)
  also have "concat (map (\<lambda>k. if isWsOpen s k
                                   then (case getWs s k of None \<Rightarrow> []
                                         | Some h \<Rightarrow> [(h, subscribeFrame (getTopics (wsStore s) k))])
                                   else []) (getKeys (wsStore s2)))
     = concat (map (\<lambda>k. if isWsOpen s k
                                   then (case getWs s k of None \<Rightarrow> []
                                         | Some h \<Rightarrow> [(h, subscribeFrame (getTopics (wsStore s) k))])
                                   else []) (getKeys (wsStore s)))"
    using new_key by (simp add: f2 setConnectionState_def getKeys_modify)
  finally have sent3: "sent s3 = sent s @ concat (map (\<lambda>k. if isWsOpen s k
                                   then (case getWs s k of None \<Rightarrow> []
                                         | Some h \<Rightarrow> [(h, subscribeFrame (getTopics (wsStore s) k))])
                                   else []) (getKeys (wsStore s)))" .
  have c1: "getConnectionState (wsStore (onWsOpen wsKey s)) wsKey = READY_STATE_CONNECTED"
    by (simp add: r f3 f2 setConnectionState_def getConnectionState_modify get_modify)
  have c2: "emitted (onWsOpen wsKey s) = emitted s @ (if isConnectionState (wsStore s) wsKey READY_STATE_CONNECTING then [EmOpen]
                    else if isConnectionState (wsStore s) wsKey READY_STATE_RECONNECTING
                    then [EmReconnected] else [])"
    by (simp add: r f3 e1)
  have c3: "\<forall>k. getTopics (wsStore (onWsOpen wsKey s)) k = getTopics (wsStore s) k"
    by (simp add: r f3 getTopics_modify_same t2)
  have c4: "set (getKeys (wsStore (onWsOpen wsKey s))) = insert wsKey (set (getKeys (wsStore s)))"
    by (simp add: r f3 f2 set_getKeys_modify setConnectionState_def)
  have c5: "sent (onWsOpen wsKey s) = sent s @ concat (map (\<lambda>k. if isWsOpen s k
                                   then (case getWs s k of None \<Rightarrow> []
                                         | Some h \<Rightarrow> [(h, subscribeFrame (getTopics (wsStore s) k))])
                                   else []) (getKeys (wsStore s)))"
    by (simp add: r sent3)
  have c6: "timers (onWsOpen wsKey s) =
       timers s @ [\<lparr>timerId = nextTimer s, kind = Interval, delay = pingInterval (options s),
                    callback = PingCallback\<rparr>]"
    by (simp add: r f3)
  have c7: "\<exists>r. get (wsStore (onWsOpen wsKey s)) wsKey = Some r \<and> activePingTimer r = Some (nextTimer s)"
    by (simp add: r f3 get_modify)
  have c8: "isWsOpen s wsKey \<longrightarrow>
        (\<exists>h. getWs s wsKey = Some h
           \<and> (h, subscribeFrame (getTopics (wsStore s) wsKey)) \<in> set (sent (onWsOpen wsKey s)))"
  proof
    assume o: "isWsOpen s wsKey"
    then obtain h where h: "getWs s wsKey = Some h"
      by (auto simp: isWsOpen_def getWs_def split: option.splits)
    have "wsKey \<in> set (getKeys (wsStore s))" using o not_open_without_record by blast
    then have "(h, subscribeFrame (getTopics (wsStore s) wsKey)) \<in> set (sent (onWsOpen wsKey s))"
      using o h by (force simp: c5)
    with h show "\<exists>h. getWs s wsKey = Some h
           \<and> (h, subscribeFrame (getTopics (wsStore s) wsKey)) \<in> set (sent (onWsOpen wsKey s))"
      by blast
  qed
  from c1 c2 c3 c4 c5 c6 c7 c8 show ?thesis by blast
qed

theorem onWsOpen_effect_witness:
  "isConnectionState (wsStore exampleSubscribedOpening) defaultWsKey READY_STATE_CONNECTING
   \<and> isWsOpen exampleSubscribedOpening defaultWsKey
   \<and> getConnectionState (wsStore (onWsOpen defaultWsKey exampleSubscribedOpening)) defaultWsKey
       = READY_STATE_CONNECTED
   \<and> emitted (onWsOpen defaultWsKey exampleSubscribedOpening) = [EmOpen]
   \<and> sent (onWsOpen defaultWsKey exampleSubscribedOpening) = [(0, subscribeFrame [''trade''])]
   \<and> map callback (timers (onWsOpen defaultWsKey exampleSubscribedOpening)) = [PingCallback]"
  using onWsOpen_effect [of defaultWsKey exampleSubscribedOpening]
  by (simp add: exampleSubscribedOpening_eq store_defs isWsOpen_def getWs_def defaultWsKey_def
      mergeOptions_def exampleOptions_def)

text \<open>
  C1 as stated fails for a key without a socket: a linear client files the topic
  \<^verbatim>\<open>wallet\<close> under the key \<^verbatim>\<open>private\<close>, the only transport belongs to the default key, and
  on its open event the one frame sent is the default key's (empty) list.
\<close>

theorem onWsOpen_skips_keys_without_socket_counterexample:
  "''private'' \<in> set (getKeys (wsStore (onWsOpen defaultWsKey exampleLinearOpening)))
   \<and> getTopics (wsStore (onWsOpen defaultWsKey exampleLinearOpening)) ''private'' = [''wallet'']
   \<and> sent exampleLinearOpening = []
   \<and> sent (onWsOpen defaultWsKey exampleLinearOpening) = [(0, subscribeFrame [])]"
  using exampleLinearConnected_eq
  by (simp add: exampleLinearConnected_def exampleLinearOpening_eq store_defs)

text \<open>
  C2, as the code has it. A frame with a \<^verbatim>\<open>success\<close> field goes to
  \<open>onWsMessageResponse\<close>, which asks the client's own \<open>isWsPong\<close>: the echo of a ping
  request with \<^verbatim>\<open>ret_msg\<close> pong and \<^verbatim>\<open>success\<close> true clears the key's pong timeout
  and is not forwarded, and every other frame is emitted as a \<^verbatim>\<open>response\<close> event with
  the timers left as they were. That includes a frame without a \<^verbatim>\<open>request\<close> field, a
  bare \<^verbatim>\<open>pong\<close> or \<^verbatim>\<open>ping\<close> marker in it notwithstanding (the \<open>isWsPong\<close> of
  util/requestUtils accepts such a frame as a heartbeat reply).
\<close>

theorem bare_pong_marker_is_forwarded:
  assumes "js_in ''success'' msg = Inr True"
  shows "(isWsPong msg \<longrightarrow>
            onWsMessage (Parsed msg) wsKey s = Inr (clearPongTimer wsKey (log Silly ''Received pong'' s))
          \<and> emitted (clearPongTimer wsKey (log Silly ''Received pong'' s)) = emitted s
          \<and> pongHandle (wsStore (clearPongTimer wsKey (log Silly ''Received pong'' s))) wsKey = None)
       \<and> (\<not> isWsPong msg \<longrightarrow>
            onWsMessage (Parsed msg) wsKey s = Inr (emit (EmResponse msg) s)
          \<and> timers (emit (EmResponse msg) s) = timers s)
       \<and> (getProp msg ''request'' = None \<longrightarrow> \<not> isWsPong msg)"
  using assms
  by (simp add: onWsMessage_def onWsMessageResponse_def isWsPong_def emit_def log_def
      view_clearPongTimer)

theorem bare_pong_marker_is_forwarded_witness:
  "isWsPong_requestUtils examplePongFrame
   \<and> onWsMessage (Parsed examplePongFrame) defaultWsKey exampleAwaitingPong
       = Inr (emit (EmResponse examplePongFrame) exampleAwaitingPong)
   \<and> map callback (timers (emit (EmResponse examplePongFrame) exampleAwaitingPong))
       = [PingCallback, PongTimeoutCallback defaultWsKey]"
proof -
  have a: "js_in ''success'' examplePongFrame = Inr True"
    and b: "getProp examplePongFrame ''request'' = None"
    by (simp_all add: examplePongFrame_def)
  have "onWsMessage (Parsed examplePongFrame) defaultWsKey exampleAwaitingPong
       = Inr (emit (EmResponse examplePongFrame) exampleAwaitingPong)"
    using bare_pong_marker_is_forwarded [OF a, of defaultWsKey exampleAwaitingPong] b by blast
  then show ?thesis
    by (simp add: examplePongFrame_def isWsPong_requestUtils_def exampleAwaitingPong_eq
        defaultWsKey_def emit_def)
qed

text \<open>
  C3, as amended. \<open>subscribe\<close> adds every topic to the set of the key it resolves to, and
  \<open>unsubscribe\<close> removes it, in every state \<open>x\<close> of the client, connected or not. In every
  state a client reaches from its constructor, if the key a topic of the call resolves to
  is Connected and its socket is open, the call hands one frame to that key's socket, and
  the frame lists the key's whole topic set as it is after the call.
\<close>

theorem subscription_effect:
  fixes evs c
  defines "s \<equiv> run evs (fst (constructor c))"
  assumes evs: "\<forall>env k. ConnectResumes env k \<in> set evs \<longrightarrow> k = defaultWsKey"
  shows "(\<forall>k. set (getTopics (wsStore (subscribe ts x)) k)
            = set (getTopics (wsStore x) k) \<union> {t \<in> set ts. getWsKeyForTopic x t = k})
   \<and> (\<forall>k. set (getTopics (wsStore (unsubscribe ts x)) k)
            = set (getTopics (wsStore x) k) - {t \<in> set ts. getWsKeyForTopic x t = k})
   \<and> (\<forall>t \<in> set ts.
         isConnectionState (wsStore s) (getWsKeyForTopic s t) READY_STATE_CONNECTED
         \<and> isWsOpen s (getWsKeyForTopic s t) \<longrightarrow>
         (\<exists>h. getWs s (getWsKeyForTopic s t) = Some h
            \<and> sent (subscribe ts s) =
                sent s @ [(h, subscribeFrame (getTopics (wsStore (subscribe ts s)) (getWsKeyForTopic s t)))]
            \<and> sent (unsubscribe ts s) =
                sent s @ [(h, unsubscribeFrame (getTopics (wsStore (unsubscribe ts s)) (getWsKeyForTopic s t)))]))"
proof -
  have inv: "default_only s"
    unfolding s_def by (rule default_only_run [OF default_only_constructor evs])
  have 1: "\<forall>k. set (getTopics (wsStore (subscribe ts x)) k)
            = set (getTopics (wsStore x) k) \<union> {t \<in> set ts. getWsKeyForTopic x t = k}"
    using subscribe_effect [of ts x] by blast
  have 2: "\<forall>k. set (getTopics (wsStore (unsubscribe ts x)) k)
            = set (getTopics (wsStore x) k) - {t \<in> set ts. getWsKeyForTopic x t = k}"
    using unsubscribe_effect [of ts x] by blast
  have 3: "\<exists>h. getWs s k = Some h
            \<and> sent (subscribe ts s) = sent s @ [(h, subscribeFrame (getTopics (wsStore (subscribe ts s)) k))]
            \<and> sent (unsubscribe ts s) = sent s @ [(h, unsubscribeFrame (getTopics (wsStore (unsubscribe ts s)) k))]"
    if c: "isConnectionState (wsStore s) k READY_STATE_CONNECTED" and o: "isWsOpen s k" for k
  proof -
    have k: "k = defaultWsKey" using inv c unfolding default_only_def isConnectionState_def by blast
    obtain h where h: "getWs s k = Some h"
      using o by (auto simp: conn_simps isWsOpen_def getWs_def split: option.splits)
    have only: "\<And>k'. k' \<noteq> k \<Longrightarrow> \<not> isWsOpen s k'"
    proof
      fix k' assume "k' \<noteq> k" "isWsOpen s k'"
      then obtain h' where "getWs_store (wsStore s) k' = Some h'"
        by (auto simp: conn_simps isWsOpen_def split: option.splits)
      with inv have "k' = defaultWsKey" unfolding default_only_def by blast
      with \<open>k' \<noteq> k\<close> k show False by simp
    qed
    have d: "distinct (getKeys (wsStore s))" using inv by (simp add: conn_simps default_only_def)
    have gate: "isConnectionState (wsStore s) defaultWsKey READY_STATE_CONNECTED" using c k by simp
    have sub: "sent (subscribe ts s) = sent s @ [(h, subscribeFrame (getTopics (wsStore (subscribe ts s)) k))]"
    proof -
      let ?F = "\<lambda>k. if isWsOpen s k
                     then (case getWs s k of None \<Rightarrow> []
                           | Some h \<Rightarrow> [(h, subscribeFrame (getTopics (wsStore (subscribe ts s)) k))])
                     else []"
      have "getWs_store (wsStore (subscribe ts s)) k = Some h"
        using subscribe_effect [of ts s] h by (simp add: conn_simps getWs_def)
      then have m: "k \<in> set (getKeys (wsStore (subscribe ts s)))" by (rule stored_socket_has_record)
      have dd: "distinct (getKeys (wsStore (subscribe ts s)))"
        using d by (simp add: conn_simps subscribe_store(1) conn_subscribe)
      have "concat (map ?F (getKeys (wsStore (subscribe ts s)))) = ?F k"
        by (rule concat_single [OF dd m]) (simp add: conn_simps only)
      moreover have "sent (subscribe ts s) = sent s @ concat (map ?F (getKeys (wsStore (subscribe ts s))))"
        using subscribe_effect [of ts s] gate by simp
      ultimately show ?thesis using o h by simp
    qed
    have unsub: "sent (unsubscribe ts s) = sent s @ [(h, unsubscribeFrame (getTopics (wsStore (unsubscribe ts s)) k))]"
    proof -
      let ?F = "\<lambda>k. if isWsOpen s k
                     then (case getWs s k of None \<Rightarrow> []
                           | Some h \<Rightarrow> [(h, unsubscribeFrame (getTopics (wsStore (unsubscribe ts s)) k))])
                     else []"
      have "getWs_store (wsStore (unsubscribe ts s)) k = Some h"
        using unsubscribe_effect [of ts s] h by (simp add: conn_simps getWs_def)
      then have m: "k \<in> set (getKeys (wsStore (unsubscribe ts s)))" by (rule stored_socket_has_record)
      have dd: "distinct (getKeys (wsStore (unsubscribe ts s)))"
        using d by (simp add: conn_simps unsubscribe_store(1) conn_subscribe)
      have "concat (map ?F (getKeys (wsStore (unsubscribe ts s)))) = ?F k"
        by (rule concat_single [OF dd m]) (simp add: conn_simps only)
      moreover have "sent (unsubscribe ts s) = sent s @ concat (map ?F (getKeys (wsStore (unsubscribe ts s))))"
        using unsubscribe_effect [of ts s] gate by simp
      ultimately show ?thesis using o h by simp
    qed
    from h sub unsub show ?thesis by blast
  qed
  from 1 2 3 show ?thesis by blast
qed

theorem subscription_effect_witness:
  "getTopics (wsStore (subscribe [''orderBook''] (fst (constructor exampleOptions)))) defaultWsKey = [''orderBook'']
   \<and> sent (subscribe [''orderBook''] (fst (constructor exampleOptions))) = []
   \<and> getWsKeyForTopic exampleConnected ''orderBook'' = defaultWsKey
   \<and> isConnectionState (wsStore exampleConnected) defaultWsKey READY_STATE_CONNECTED
   \<and> isWsOpen exampleConnected defaultWsKey
   \<and> getTopics (wsStore (subscribe [''orderBook''] exampleConnected)) defaultWsKey = [''orderBook'']
   \<and> sent (subscribe [''orderBook''] exampleConnected)
       = sent exampleConnected @ [(0, subscribeFrame [''orderBook''])]
   \<and> sent (unsubscribe [''orderBook''] exampleConnected)
       = sent exampleConnected @ [(0, unsubscribeFrame [])]"
proof -
  let ?evs = "[ConnectResumes exampleEnv defaultWsKey, TransportOpen 0]"
  have e: "\<forall>env k. ConnectResumes env k \<in> set ?evs \<longrightarrow> k = defaultWsKey" by simp
  note T = subscription_effect [where evs = ?evs and ts = "[''orderBook'']"
      and x = "fst (constructor exampleOptions)" and c = exampleOptions,
      OF e, folded exampleConnected_def]
  have a: "getWsKeyForTopic exampleConnected ''orderBook'' = defaultWsKey"
    and b: "isConnectionState (wsStore exampleConnected) defaultWsKey READY_STATE_CONNECTED"
    and c: "isWsOpen exampleConnected defaultWsKey"
    and d: "getWs exampleConnected defaultWsKey = Some 0"
    by (simp_all add: conn_simps exampleConnected_eq store_defs isWsOpen_def getWsKeyForTopic_def isInverse_def
        mergeOptions_def exampleOptions_def defaultWsKey_def getWs_def)
  have g: "getTopics (wsStore (subscribe [''orderBook''] exampleConnected)) defaultWsKey = [''orderBook'']"
    "getTopics (wsStore (unsubscribe [''orderBook''] exampleConnected)) defaultWsKey = []"
    "getTopics (wsStore (subscribe [''orderBook''] (fst (constructor exampleOptions)))) defaultWsKey = [''orderBook'']"
    "sent (subscribe [''orderBook''] (fst (constructor exampleOptions))) = []"
    by (simp_all add: conn_simps exampleConnected_eq constructor_eq newClient_def store_defs client_defs example_defs)
  have "\<exists>h. getWs exampleConnected defaultWsKey = Some h
      \<and> sent (subscribe [''orderBook''] exampleConnected) =
          sent exampleConnected @ [(h, subscribeFrame (getTopics (wsStore (subscribe [''orderBook''] exampleConnected)) defaultWsKey))]
      \<and> sent (unsubscribe [''orderBook''] exampleConnected) =
          sent exampleConnected @ [(h, unsubscribeFrame (getTopics (wsStore (unsubscribe [''orderBook''] exampleConnected)) defaultWsKey))]"
    using T a b c by simp
  then have s: "sent (subscribe [''orderBook''] exampleConnected) =
          sent exampleConnected @ [(0, subscribeFrame [''orderBook''])]
      \<and> sent (unsubscribe [''orderBook''] exampleConnected) =
          sent exampleConnected @ [(0, unsubscribeFrame [])]"
    by (simp only: d g) simp
  from a b c g s show ?thesis by simp
qed

text \<open>
  C3 as stated fails while the socket is closing: after a pong timeout the key is still
  Connected, the topic is stored, and no frame leaves.
\<close>

theorem subscribe_on_closing_socket_counterexample:
  "getWsKeyForTopic exampleClosing ''orderBook'' = defaultWsKey
   \<and> isConnectionState (wsStore exampleClosing) defaultWsKey READY_STATE_CONNECTED
   \<and> getTopics (wsStore (subscribe [''orderBook''] exampleClosing)) defaultWsKey = [''orderBook'']
   \<and> sent (subscribe [''orderBook''] exampleClosing) = sent exampleClosing"
  by (simp add: exampleClosing_eq exampleAwaitingPong_eq exampleConnected_eq store_defs client_defs
      example_defs)

text \<open>
  C4: \<open>connect\<close> for a key whose socket is open, or whose state is Connecting, does nothing
  but log the refusal: no transport is opened, no socket handle is stored, and the store
  (so the state of the key), the timers and everything else stay as they were.
\<close>

theorem connect_idempotent:
  assumes "isWsOpen s wsKey \<or> isConnectionState (wsStore s) wsKey READY_STATE_CONNECTING"
  shows "connect env wsKey s =
           log LError (if isWsOpen s wsKey
                       then ''Refused to connect to ws with existing active connection''
                       else ''Refused to connect to ws, connection attempt already active'') s
         \<and> sockets (connect env wsKey s) = sockets s
         \<and> wsStore (connect env wsKey s) = wsStore s
         \<and> getWs (connect env wsKey s) wsKey = getWs s wsKey
         \<and> getConnectionState (wsStore (connect env wsKey s)) wsKey = getConnectionState (wsStore s) wsKey
         \<and> timers (connect env wsKey s) = timers s"
  using assms by (auto simp: connect_def connect_start_def log_def getWs_def)

theorem connect_idempotent_witness:
  "isConnectionState (wsStore (fst (constructor exampleOptions))) defaultWsKey READY_STATE_CONNECTING
   \<and> sockets (connect exampleEnv defaultWsKey (fst (constructor exampleOptions))) = []
   \<and> wsStore (connect exampleEnv defaultWsKey (fst (constructor exampleOptions)))
       = [(defaultWsKey, emptyRecord\<lparr>state := READY_STATE_CONNECTING\<rparr>)]
   \<and> isWsOpen exampleConnected defaultWsKey
   \<and> sockets (connect exampleEnv defaultWsKey exampleConnected) = sockets exampleConnected
   \<and> wsStore (connect exampleEnv defaultWsKey exampleConnected) = wsStore exampleConnected"
proof -
  have c: "isConnectionState (wsStore (fst (constructor exampleOptions))) defaultWsKey READY_STATE_CONNECTING"
    by (simp add: constructor_eq isConnectionState_def getConnectionState_def get_def)
  have "sockets (connect exampleEnv defaultWsKey (fst (constructor exampleOptions)))
          = sockets (fst (constructor exampleOptions))
        \<and> wsStore (connect exampleEnv defaultWsKey (fst (constructor exampleOptions)))
          = wsStore (fst (constructor exampleOptions))"
    using connect_idempotent [OF disjI2 [OF c], of exampleEnv] by blast
  moreover have d: "isWsOpen exampleConnected defaultWsKey"
    by (simp add: exampleConnected_eq isWsOpen_def getWs_store_def get_def defaultWsKey_def)
  moreover have "sockets (connect exampleEnv defaultWsKey exampleConnected) = sockets exampleConnected
        \<and> wsStore (connect exampleEnv defaultWsKey exampleConnected) = wsStore exampleConnected"
    using connect_idempotent [OF disjI1 [OF d], of exampleEnv] by blast
  ultimately show ?thesis using c by (simp add: constructor_eq newClient_def)
qed



text \<open>
  C6: in a run of the client without a call of \<open>unsubscribe\<close>, the topic set of every key
  only grows, and in a run with no call of \<open>subscribe\<close> either (timers firing, transports
  opening, failing and closing, \<open>close\<close>, resumed connects) the stored topics of every key
  are, at the end, exactly what they were.
\<close>

theorem topics_survive:
  assumes "\<forall>ts. Unsubscribe ts \<notin> set evs"
  shows "set (getTopics (wsStore s) k) \<subseteq> set (getTopics (wsStore (run evs s)) k)
       \<and> ((\<forall>ts. Subscribe ts \<notin> set evs) \<longrightarrow>
            getTopics (wsStore (run evs s)) k = getTopics (wsStore s) k)"
  using assms
proof (induction evs arbitrary: s)
  case Nil
  show ?case by (simp add: run_def)
next
  case (Cons ev evs)
  have u: "\<And>ts. ev \<noteq> Unsubscribe ts" and r: "\<forall>ts. Unsubscribe ts \<notin> set evs"
    using Cons.prems by auto
  have run: "run (ev # evs) s = run evs (step ev s)" by (simp add: run_def)
  have a: "set (getTopics (wsStore s) k) \<subseteq> set (getTopics (wsStore (step ev s)) k)"
    using u by (rule getTopics_step_grows)
  have b: "set (getTopics (wsStore (step ev s)) k) \<subseteq> set (getTopics (wsStore (run evs (step ev s))) k)"
    using Cons.IH [OF r] by blast
  have c: "(\<forall>ts. Subscribe ts \<notin> set (ev # evs)) \<longrightarrow>
            getTopics (wsStore (run evs (step ev s))) k = getTopics (wsStore s) k"
  proof
    assume n: "\<forall>ts. Subscribe ts \<notin> set (ev # evs)"
    then have "\<And>ts. ev \<noteq> Subscribe ts" and "\<forall>ts. Subscribe ts \<notin> set evs" by auto
    then show "getTopics (wsStore (run evs (step ev s))) k = getTopics (wsStore s) k"
      using Cons.IH [OF r, of "step ev s"] getTopics_step [of ev s k] u by simp
  qed
  from a b c show ?case unfolding run by blast
qed

theorem topics_survive_witness:
  "getTopics (wsStore (subscribe [''trade''] exampleConnected)) defaultWsKey = [''trade'']
   \<and> getTopics (wsStore (run exampleCycle (subscribe [''trade''] exampleConnected))) defaultWsKey = [''trade'']
   \<and> emitted (run exampleCycle (subscribe [''trade''] exampleConnected)) = [EmOpen, EmReconnect, EmReconnected]
   \<and> getWs (run exampleCycle (subscribe [''trade''] exampleConnected)) defaultWsKey = Some 1"
proof -
  have h: "\<forall>ts. Unsubscribe ts \<notin> set exampleCycle" by (simp add: exampleCycle_def)
  have n: "\<forall>ts. Subscribe ts \<notin> set exampleCycle" by (simp add: exampleCycle_def)
  have a: "getTopics (wsStore (subscribe [''trade''] exampleConnected)) defaultWsKey = [''trade'']"
    by (simp add: exampleConnected_eq store_defs client_defs example_defs)
  have b: "getTopics (wsStore (run exampleCycle (subscribe [''trade''] exampleConnected))) defaultWsKey
            = getTopics (wsStore (subscribe [''trade''] exampleConnected)) defaultWsKey"
    using topics_survive [OF h, of "subscribe [''trade''] exampleConnected" defaultWsKey] n by blast
  have c: "emitted (run exampleCycle (subscribe [''trade''] exampleConnected)) = [EmOpen, EmReconnect, EmReconnected]
     \<and> getWs (run exampleCycle (subscribe [''trade''] exampleConnected)) defaultWsKey = Some 1"
    by (simp add: exampleCycle_def exampleConnected_eq store_defs client_defs example_defs Let_def)
  from a b c show ?thesis by simp
qed

text \<open>
  C7, as amended. In every state a client reaches from its constructor: a Connected key
  records a heartbeat interval that is pending; a heartbeat tick cancels no interval and
  leaves a pong timeout pending, so the two timers are pending together from the tick
  until the pong arrives or the timeout passes; and at most one pong timeout is pending
  per key.
\<close>

theorem heartbeat_timers:
  "(getConnectionState (wsStore (run evs (fst (constructor c)))) k = READY_STATE_CONNECTED \<longrightarrow>
      (\<exists>r t. get (wsStore (run evs (fst (constructor c)))) k = Some r
           \<and> t \<in> set (timers (run evs (fst (constructor c))))
           \<and> activePingTimer r = Some (timerId t) \<and> kind t = Interval \<and> callback t = PingCallback))
   \<and> (\<forall>t \<in> set (timers (run evs (fst (constructor c)))).
         kind t = Interval \<longrightarrow> t \<in> set (timers (ping k (run evs (fst (constructor c))))))
   \<and> PongTimeoutCallback k \<in> callback ` set (timers (ping k (run evs (fst (constructor c)))))
   \<and> length (filter (\<lambda>t. callback t = PongTimeoutCallback k) (timers (run evs (fst (constructor c))))) \<le> 1"
proof -
  let ?s = "run evs (fst (constructor c))"
  have inv: "heartbeat_inv ?s" by (rule heartbeat_inv_run [OF heartbeat_inv_constructor])
  note p = hb_inv_parts [OF inv [unfolded heartbeat_inv_def]]
  have 1: "getConnectionState (wsStore ?s) k = READY_STATE_CONNECTED \<longrightarrow>
      (\<exists>r t. get (wsStore ?s) k = Some r \<and> t \<in> set (timers ?s)
           \<and> activePingTimer r = Some (timerId t) \<and> kind t = Interval \<and> callback t = PingCallback)"
  proof
    assume "getConnectionState (wsStore ?s) k = READY_STATE_CONNECTED"
    then obtain t where t: "t \<in> set (timers ?s)" "pingHandle (wsStore ?s) k = Some (timerId t)"
      "kind t = Interval" "callback t = PingCallback"
      using p(8) by blast
    from t(2) obtain r where "get (wsStore ?s) k = Some r" "activePingTimer r = Some (timerId t)"
      by (auto simp: pingHandle_def split: option.splits)
    with t show "\<exists>r t. get (wsStore ?s) k = Some r \<and> t \<in> set (timers ?s)
           \<and> activePingTimer r = Some (timerId t) \<and> kind t = Interval \<and> callback t = PingCallback"
      by blast
  qed
  have 2: "\<forall>t \<in> set (timers ?s). kind t = Interval \<longrightarrow> t \<in> set (timers (ping k ?s))"
  proof (intro ballI impI)
    fix t assume t: "t \<in> set (timers ?s)" "kind t = Interval"
    have "pongHandle (wsStore ?s) k \<noteq> Some (timerId t)" using p(6) t by force
    then show "t \<in> set (timers (ping k ?s))" using t(1) by (simp add: view_ping(1) in_cancel)
  qed
  have 3: "PongTimeoutCallback k \<in> callback ` set (timers (ping k ?s))"
    by (simp add: view_ping(1))
  have 4: "length (filter (\<lambda>t. callback t = PongTimeoutCallback k) (timers ?s)) \<le> 1"
    by (rule hb_inv_pong_count [OF inv [unfolded heartbeat_inv_def]])
  from 1 2 3 4 show ?thesis by blast
qed

theorem heartbeat_timers_witness:
  "getConnectionState (wsStore exampleAwaitingPong) defaultWsKey = READY_STATE_CONNECTED
   \<and> (\<exists>r t. get (wsStore exampleAwaitingPong) defaultWsKey = Some r
           \<and> t \<in> set (timers exampleAwaitingPong)
           \<and> activePingTimer r = Some (timerId t) \<and> kind t = Interval \<and> callback t = PingCallback)
   \<and> length (filter (\<lambda>t. callback t = PongTimeoutCallback defaultWsKey) (timers exampleAwaitingPong)) \<le> 1
   \<and> map callback (timers exampleAwaitingPong) = [PingCallback, PongTimeoutCallback defaultWsKey]"
proof -
  have r: "run [ConnectResumes exampleEnv defaultWsKey, TransportOpen 0, TimerFires 1]
             (fst (constructor exampleOptions)) = exampleAwaitingPong"
    using run_append [of "[ConnectResumes exampleEnv defaultWsKey, TransportOpen 0]" "[TimerFires 1]"
        "fst (constructor exampleOptions)"]
    by (simp add: exampleAwaitingPong_def exampleConnected_def)
  have c: "getConnectionState (wsStore exampleAwaitingPong) defaultWsKey = READY_STATE_CONNECTED"
    by (simp add: exampleAwaitingPong_eq exampleConnected_eq store_defs defaultWsKey_def)
  have m: "map callback (timers exampleAwaitingPong) = [PingCallback, PongTimeoutCallback defaultWsKey]"
    by (simp add: exampleAwaitingPong_eq exampleConnected_eq defaultWsKey_def)
  note T = heartbeat_timers [of "[ConnectResumes exampleEnv defaultWsKey, TransportOpen 0, TimerFires 1]"
      exampleOptions defaultWsKey, unfolded r]
  from T c m show ?thesis by blast
qed

text \<open>
  C7 as stated fails after the first heartbeat tick: the key is Connected and both its
  heartbeat interval and its pong timeout are pending.
\<close>

theorem both_timers_pending_counterexample:
  "getConnectionState (wsStore exampleAwaitingPong) defaultWsKey = READY_STATE_CONNECTED
   \<and> get (wsStore exampleAwaitingPong) defaultWsKey
       = Some \<lparr>state = READY_STATE_CONNECTED, socket = Some 0, topics = [],
               activePingTimer = Some 1, activePongTimer = Some 2\<rparr>
   \<and> timers exampleAwaitingPong
       = [\<lparr>timerId = 1, kind = Interval, delay = 10000, callback = PingCallback\<rparr>,
          \<lparr>timerId = 2, kind = Timeout, delay = 1000, callback = PongTimeoutCallback defaultWsKey\<rparr>]"
  by (simp add: exampleAwaitingPong_eq exampleConnected_eq store_defs defaultWsKey_def)

text \<open>
  C8, and where the code departs from it. A frame that parses to an object (or array)
  with neither a \<^verbatim>\<open>success\<close> field nor a truthy \<^verbatim>\<open>topic\<close> is logged as unhandled and
  changes nothing else, and a frame with a \<^verbatim>\<open>success\<close> field emits a \<^verbatim>\<open>response\<close>
  event or (a heartbeat reply) nothing, never an \<^verbatim>\<open>update\<close>. But a malformed frame, or
  one that parses to a primitive value, does not reach the branch that logs the unhandled
  message: \<^verbatim>\<open>JSON.parse\<close> and the \<^verbatim>\<open>in\<close> operator are applied outside any
  \<^verbatim>\<open>try\<close>, the exception leaves the handler, and nothing is logged.
\<close>

theorem unhandled_frames:
  "(js_in ''success'' msg = Inr False \<and> \<not> truthy_opt (getProp msg ''topic'') \<longrightarrow>
      onWsMessage (Parsed msg) wsKey s = Inr (log Warning ''Got unhandled ws message'' s)
      \<and> step (TransportMessage h (Parsed msg)) s = (if h < length (sockets s) then log Warning ''Got unhandled ws message'' s else s))
   \<and> onWsMessage Malformed wsKey s = Inl SyntaxError
   \<and> (\<forall>e. js_in ''success'' msg = Inl e \<longrightarrow> onWsMessage (Parsed msg) wsKey s = Inl e)
   \<and> step (TransportMessage h Malformed) s = s
   \<and> (js_in ''success'' msg = Inr True \<longrightarrow>
        (\<exists>s'. onWsMessage (Parsed msg) wsKey s = Inr s'
              \<and> emitted s' = emitted s @ (if isWsPong msg then [] else [EmResponse msg])))"
proof -
  have e: "emitted (clearPongTimer wsKey (log Silly ''Received pong'' s)) = emitted s"
    by (simp add: clearPongTimer_def clearTimeout_def log_def split: option.splits)
  show ?thesis
    by (auto simp: onWsMessage_def onWsMessageResponse_def e emit_def log_def)
qed

theorem unhandled_frames_witness:
  "js_in ''success'' (JObj [(''foo'', JNum 1)]) = Inr False
   \<and> onWsMessage (Parsed (JObj [(''foo'', JNum 1)])) defaultWsKey exampleConnected
       = Inr (log Warning ''Got unhandled ws message'' exampleConnected)
   \<and> js_in ''success'' (JObj [(''success'', JBool False), (''topic'', JStr ''trade'')]) = Inr True
   \<and> onWsMessage (Parsed (JObj [(''success'', JBool False), (''topic'', JStr ''trade'')])) defaultWsKey exampleConnected
       = Inr (emit (EmResponse (JObj [(''success'', JBool False), (''topic'', JStr ''trade'')])) exampleConnected)
   \<and> js_in ''success'' (JStr ''pong'') = Inl TypeError
   \<and> onWsMessage (Parsed (JStr ''pong'')) defaultWsKey exampleConnected = Inl TypeError"
proof -
  have a: "js_in ''success'' (JObj [(''foo'', JNum 1)]) = Inr False \<and> \<not> truthy_opt (getProp (JObj [(''foo'', JNum 1)]) ''topic'')"
    by simp
  have b: "js_in ''success'' (JObj [(''success'', JBool False), (''topic'', JStr ''trade'')]) = Inr True"
    by simp
  have c: "js_in ''success'' (JStr ''pong'') = Inl TypeError" by simp
  have 1: "onWsMessage (Parsed (JObj [(''foo'', JNum 1)])) defaultWsKey exampleConnected
       = Inr (log Warning ''Got unhandled ws message'' exampleConnected)"
    using unhandled_frames [of "JObj [(''foo'', JNum 1)]" defaultWsKey exampleConnected] a by blast
  have 2: "onWsMessage (Parsed (JStr ''pong'')) defaultWsKey exampleConnected = Inl TypeError"
    using unhandled_frames [of "JStr ''pong''" defaultWsKey exampleConnected] c by blast
  have 3: "onWsMessage (Parsed (JObj [(''success'', JBool False), (''topic'', JStr ''trade'')])) defaultWsKey exampleConnected
       = Inr (emit (EmResponse (JObj [(''success'', JBool False), (''topic'', JStr ''trade'')])) exampleConnected)"
    by (simp add: onWsMessage_def onWsMessageResponse_def isWsPong_def)
  from a b c 1 2 3 show ?thesis by blast
qed

text \<open>
  The malformed frame at the connected client: the handler throws, and the log is as it
  was.
\<close>

theorem malformed_frame_throws:
  "onWsMessage Malformed defaultWsKey exampleConnected = Inl SyntaxError
   \<and> logs (step (TransportMessage 0 Malformed) exampleConnected) = logs exampleConnected
   \<and> 0 < length (sockets exampleConnected)"
  by (simp add: onWsMessage_def exampleConnected_eq)

text \<open>
  C9: when the key or the secret is missing, the auth step logs the warning and returns
  the empty query string; the resumed \<open>connect\<close> then opens the transport on the plain
  URL and stores it, and it takes the failure branch only if the transport's constructor
  throws.
\<close>

theorem connect_without_credentials:
  assumes "\<not> truthy_str (key (options s)) \<or> \<not> truthy_str (secret (options s))"
  shows "getAuthParams env s =
           (log Warning ''Connot authenticate websocket, either api or private keys missing.'' s, Inr [])
       \<and> (newWebSocket env (getWsUrl s) = None \<longrightarrow>
            connect_resume env wsKey s =
              (log Warning ''Connot authenticate websocket, either api or private keys missing.'' s)
                \<lparr>sockets := sockets s @ [\<lparr>url = getWsUrl s, handlerKey = wsKey, readyState = CONNECTING\<rparr>],
                 wsStore := setWs (wsStore s) wsKey (length (sockets s))\<rparr>)
       \<and> (\<forall>e. newWebSocket env (getWsUrl s) = Some e \<longrightarrow>
            connect_resume env wsKey s =
              connect_catch e wsKey
                (log Warning ''Connot authenticate websocket, either api or private keys missing.'' s))
       \<and> (\<not> isWsOpen s wsKey \<and> \<not> isConnectionState (wsStore s) wsKey READY_STATE_CONNECTING
            \<and> newWebSocket env (getWsUrl s) = None \<longrightarrow>
            sockets (connect env wsKey s)
              = sockets s @ [\<lparr>url = getWsUrl s, handlerKey = wsKey, readyState = CONNECTING\<rparr>]
            \<and> getWs (connect env wsKey s) wsKey = Some (length (sockets s)))"
proof -
  let ?W = "''Connot authenticate websocket, either api or private keys missing.''"
  have a: "\<And>s'. options s' = options s \<Longrightarrow> getAuthParams env s' = (log Warning ?W s', Inr [])"
    using assms by (auto simp: getAuthParams_def)
  have 1: "getAuthParams env s = (log Warning ?W s, Inr [])" by (rule a) simp
  have 2: "newWebSocket env (getWsUrl s) = None \<longrightarrow>
            connect_resume env wsKey s =
              (log Warning ?W s)
                \<lparr>sockets := sockets s @ [\<lparr>url = getWsUrl s, handlerKey = wsKey, readyState = CONNECTING\<rparr>],
                 wsStore := setWs (wsStore s) wsKey (length (sockets s))\<rparr>"
    by (simp add: connect_resume_def 1 connectToWsUrl_def log_def getWsUrl_def)
  have 3: "\<forall>e. newWebSocket env (getWsUrl s) = Some e \<longrightarrow>
            connect_resume env wsKey s = connect_catch e wsKey (log Warning ?W s)"
    by (simp add: connect_resume_def 1 connectToWsUrl_def log_def getWsUrl_def)
  have 4: "\<not> isWsOpen s wsKey \<and> \<not> isConnectionState (wsStore s) wsKey READY_STATE_CONNECTING
            \<and> newWebSocket env (getWsUrl s) = None \<longrightarrow>
            sockets (connect env wsKey s)
              = sockets s @ [\<lparr>url = getWsUrl s, handlerKey = wsKey, readyState = CONNECTING\<rparr>]
            \<and> getWs (connect env wsKey s) wsKey = Some (length (sockets s))"
    by (auto simp: connect_def connect_start_def connect_resume_def a connectToWsUrl_def
        setWsState_def log_def getWs_def getWs_store_def setWs_def get_modify getWsUrl_def)
  from 1 2 3 4 show ?thesis by blast
qed

theorem connect_without_credentials_witness:
  "key (options (fst (constructor exampleOptions))) = None
   \<and> sockets (connect_resume exampleEnv defaultWsKey (fst (constructor exampleOptions)))
       = [\<lparr>url = ''wss://stream-testnet.bybit.com/realtime'', handlerKey = defaultWsKey,
           readyState = CONNECTING\<rparr>]
   \<and> logs (connect_resume exampleEnv defaultWsKey (fst (constructor exampleOptions)))
       = [(Warning, ''Connot authenticate websocket, either api or private keys missing.'')]
   \<and> timers (connect_resume exampleEnv defaultWsKey (fst (constructor exampleOptions))) = []"
proof -
  let ?s = "fst (constructor exampleOptions)"
  have k: "key (options ?s) = None"
    by (simp add: constructor_eq newClient_def mergeOptions_def exampleOptions_def)
  then have h: "\<not> truthy_str (key (options ?s)) \<or> \<not> truthy_str (secret (options ?s))" by simp
  have u: "newWebSocket exampleEnv (getWsUrl ?s) = None" by (simp add: exampleEnv_def)
  have "connect_resume exampleEnv defaultWsKey ?s =
          (log Warning ''Connot authenticate websocket, either api or private keys missing.'' ?s)
            \<lparr>sockets := sockets ?s @ [\<lparr>url = getWsUrl ?s, handlerKey = defaultWsKey, readyState = CONNECTING\<rparr>],
             wsStore := setWs (wsStore ?s) defaultWsKey (length (sockets ?s))\<rparr>"
    using connect_without_credentials [OF h, of exampleEnv defaultWsKey] u by blast
  then show ?thesis using k
    by (simp add: constructor_eq newClient_def mergeOptions_def exampleOptions_def log_def
        getWsUrl_def inverseEndpoints_def)
qed

text \<open>
  C10: the constructor sets the default key to Initial and calls \<open>connect\<close> for it, which
  passes its guards, moves the key to Connecting and reaches the auth step, with no topic
  stored; once resumed it has opened one transport for the default key, or scheduled a
  retry. The public operations never open a transport.
\<close>

theorem constructor_starts_connection:
  "getConnectionState (wsStore (setWsState (newClient c) defaultWsKey READY_STATE_INITIAL)) defaultWsKey
     = READY_STATE_INITIAL
   \<and> constructor c = connect_start defaultWsKey (setWsState (newClient c) defaultWsKey READY_STATE_INITIAL)
   \<and> snd (constructor c) = True
   \<and> getConnectionState (wsStore (fst (constructor c))) defaultWsKey = READY_STATE_CONNECTING
   \<and> (\<forall>k. getTopics (wsStore (fst (constructor c))) k = [])
   \<and> sockets (fst (constructor c)) = []
   \<and> ((\<exists>u. sockets (connect_resume env defaultWsKey (fst (constructor c)))
              = [\<lparr>url = u, handlerKey = defaultWsKey, readyState = CONNECTING\<rparr>]
            \<and> getWs (connect_resume env defaultWsKey (fst (constructor c))) defaultWsKey = Some 0)
       \<or> (sockets (connect_resume env defaultWsKey (fst (constructor c))) = []
           \<and> map callback (timers (connect_resume env defaultWsKey (fst (constructor c))))
               = [ReconnectCallback]))
   \<and> sockets (subscribe ts s) = sockets s
   \<and> sockets (unsubscribe ts s) = sockets s
   \<and> length (sockets (close k s)) = length (sockets s)"
proof -
  let ?s0 = "fst (constructor c)"
  have 1: "getConnectionState (wsStore (setWsState (newClient c) defaultWsKey READY_STATE_INITIAL)) defaultWsKey
     = READY_STATE_INITIAL"
    by (simp add: setWsState_def setConnectionState_def getConnectionState_modify)
  have 2: "constructor c = connect_start defaultWsKey (setWsState (newClient c) defaultWsKey READY_STATE_INITIAL)"
    by (simp add: constructor_def)
  have 3: "snd (constructor c) = True" by (simp add: constructor_eq)
  have 4: "getConnectionState (wsStore ?s0) defaultWsKey = READY_STATE_CONNECTING"
    by (simp add: constructor_eq getConnectionState_def get_def)
  have 5: "\<forall>k. getTopics (wsStore ?s0) k = []"
    by (simp add: constructor_eq getTopics_def get_def emptyRecord_def)
  have 6: "sockets ?s0 = []" "timers ?s0 = []" by (simp_all add: constructor_eq newClient_def)
  have ct: "clearTimers defaultWsKey ?s0 = ?s0"
    by (rule clearTimers_no_record_timers) (auto simp: constructor_eq get_def emptyRecord_def)
  have 7: "(\<exists>u. sockets (connect_resume env defaultWsKey ?s0)
              = [\<lparr>url = u, handlerKey = defaultWsKey, readyState = CONNECTING\<rparr>]
            \<and> getWs (connect_resume env defaultWsKey ?s0) defaultWsKey = Some 0)
       \<or> (sockets (connect_resume env defaultWsKey ?s0) = []
           \<and> map callback (timers (connect_resume env defaultWsKey ?s0)) = [ReconnectCallback])"
    using connect_resume_cases [of env defaultWsKey ?s0] by (auto simp: 6 ct)
  from 1 2 3 4 5 6(1) 7 sockets_subscribe sockets_unsubscribe sockets_close show ?thesis by blast
qed

theorem constructor_starts_connection_witness:
  "snd (constructor exampleOptions) = True
   \<and> getConnectionState (wsStore (fst (constructor exampleOptions))) defaultWsKey = READY_STATE_CONNECTING
   \<and> sockets (connect_resume exampleEnv defaultWsKey (fst (constructor exampleOptions)))
       = [\<lparr>url = ''wss://stream-testnet.bybit.com/realtime'', handlerKey = defaultWsKey,
            readyState = CONNECTING\<rparr>]
   \<and> sockets (subscribe [''trade''] exampleConnected) = sockets exampleConnected"
proof -
  have a: "snd (constructor exampleOptions) = True
     \<and> getConnectionState (wsStore (fst (constructor exampleOptions))) defaultWsKey = READY_STATE_CONNECTING
     \<and> sockets (subscribe [''trade''] exampleConnected) = sockets exampleConnected"
    using constructor_starts_connection [of exampleOptions exampleEnv "[''trade'']" exampleConnected]
    by blast
  have b: "sockets (connect_resume exampleEnv defaultWsKey (fst (constructor exampleOptions)))
       = [\<lparr>url = ''wss://stream-testnet.bybit.com/realtime'', handlerKey = defaultWsKey,
            readyState = CONNECTING\<rparr>]"
    by (simp add: constructor_eq store_defs client_defs example_defs)
  from a b show ?thesis by blast
qed

end
